theory Spec2Isabelle
  imports Complex_Main "HOL-Library.Word" "HOL-Library.Sublist" "HOL-Library.Log_Nat"
begin

section \<open>JavaScript strings\<close>

text \<open>
  A JavaScript string is a sequence of UTF-16 code units; \<open>length\<close>, \<open>substring\<close>,
  \<open>startsWith\<close>, \<open>includes\<close> and \<open>split\<close> all work on code units. Every literal of
  \<open>data-processor.js\<close> lies in the Basic Multilingual Plane, so each of its characters is
  one code unit. The literals are written below as the lists of their code units.
\<close>

type_synonym uchar = "16 word"
type_synonym ustring = "uchar list"

definition startsWith :: "ustring \<Rightarrow> ustring \<Rightarrow> bool" where
  "startsWith s p = prefix p s"

definition endsWith :: "ustring \<Rightarrow> ustring \<Rightarrow> bool" where
  "endsWith s p = suffix p s"

text \<open>\<open>s.includes(t)\<close>: \<open>t\<close> occurs in \<open>s\<close> as a contiguous run of code units.\<close>

fun includes_str :: "ustring \<Rightarrow> ustring \<Rightarrow> bool" where
  "includes_str [] t = (t = [])"
| "includes_str (c # s) t = (prefix t (c # s) \<or> includes_str s t)"

text \<open>\<open>s.split(d)\<close> for a one-unit separator: never empty, \<open>[[]]\<close> for the empty string.\<close>

fun split_str :: "uchar \<Rightarrow> ustring \<Rightarrow> ustring list" where
  "split_str d [] = [[]]"
| "split_str d (c # s) =
     (if c = d then [] # split_str d s
      else (case split_str d s of l # ls \<Rightarrow> (c # l) # ls | [] \<Rightarrow> [[c]]))"

text \<open>
  The white space of \<open>String.prototype.trim\<close> and of the regular expression class
  \<open>\s\<close>: TAB, LF, VT, FF, CR, SP, NBSP, U+1680, U+2000..U+200A, U+2028, U+2029,
  U+202F, U+205F, U+3000 and U+FEFF.
\<close>

definition is_space :: "uchar \<Rightarrow> bool" where
  "is_space c = (c \<in> {9, 10, 11, 12, 13, 32, 160, 5760, 8232, 8233, 8239, 8287, 12288, 65279}
                 \<or> (8192 \<le> c \<and> c \<le> 8202))"

definition trim :: "ustring \<Rightarrow> ustring" where
  "trim s = rev (dropWhile is_space (rev (dropWhile is_space s)))"

text \<open>\<open>lines.join(sep)\<close>.\<close>

fun join_str :: "ustring \<Rightarrow> ustring list \<Rightarrow> ustring" where
  "join_str sep [] = []"
| "join_str sep [x] = x"
| "join_str sep (x # y # ys) = x @ sep @ join_str sep (y # ys)"

text \<open>The regular expression class \<open>\d\<close>: the ASCII digits.\<close>

definition is_digit :: "uchar \<Rightarrow> bool" where
  "is_digit c = (48 \<le> c \<and> c \<le> 57)"

subsection \<open>The literals of the source\<close>

definition newline :: uchar where "newline = 10"
definition hyphen :: uchar where "hyphen = 45"
definition space_str :: ustring where "space_str = [32]"
definition dot_md :: ustring where "dot_md = [46, 109, 100]"
definition readme_md :: ustring where "readme_md = [82, 69, 65, 68, 77, 69, 46, 109, 100]"
definition hash2 :: ustring where "hash2 = [35, 35]"
definition hash3 :: ustring where "hash3 = [35, 35, 35]"
definition gt_sign :: uchar where "gt_sign = 62"
definition diamond :: uchar where "diamond = 9670"
definition undefined_str :: ustring where
  "undefined_str = [117, 110, 100, 101, 102, 105, 110, 101, 100]"

text \<open>\<open>'\<^verbatim>\<open>## \<close>' + U+30B5 U+30DE U+30EA U+30FC\<close>: the Summary header, and its last four units,
  the word "summary" in katakana.\<close>

definition summary_word :: ustring where
  "summary_word = [12469, 12510, 12522, 12540]"
definition summary_header :: ustring where
  "summary_header = [35, 35, 32, 12469, 12510, 12522, 12540]"

text \<open>U+756A U+5916 U+7DE8, the "extra episode" prefix; with a hyphen as the id pattern has
  it; with a space as the title has it.\<close>

definition extra_prefix :: ustring where
  "extra_prefix = [30058, 22806, 32232]"
definition extra_title_prefix :: ustring where
  "extra_title_prefix = [30058, 22806, 32232, 32]"

text \<open>The fixed title of episode 0 and the label of the fallback title (ending in a space).\<close>

definition title_zero :: ustring where
  "title_zero = [30058, 32068, 12398, 26041, 21521, 24615]"
definition episode_label :: ustring where
  "episode_label = [12456, 12500, 12477, 12540, 12489, 32]"
definition id_zero :: ustring where "id_zero = [48]"

section \<open>extractEpisodeId\<close>

text \<open>
  \<^verbatim>\<open>filename.match(/^(\d+(?:-\d+)?|EXTRA-\d+)\.md$/)\<close>, returning group 1 or null, where
  EXTRA stands for the three units of \<open>extra_prefix\<close>. Both anchors are present and there is
  no flag, so the whole filename has to match. Neither a hyphen nor a dot is a digit, so each
  greedy \<open>\d+\<close> is the maximal run of digits and the matcher never backtracks into it.
  \<open>match_digits\<close> is \<open>\d+\<close>: the run and the rest, provided the run is not empty.
\<close>

definition match_digits :: "ustring \<Rightarrow> (ustring \<times> ustring) option" where
  "match_digits s =
     (let ds = takeWhile is_digit s
      in if ds = [] then None else Some (ds, dropWhile is_digit s))"

text \<open>First alternative: \<open>\d+(?:-\d+)?\<close> followed by \<open>\.md$\<close>.\<close>

definition match_numbered :: "ustring \<Rightarrow> ustring option" where
  "match_numbered f =
     (case match_digits f of
        None \<Rightarrow> None
      | Some (n, r) \<Rightarrow>
          (if r = dot_md then Some n
           else (case r of
                   [] \<Rightarrow> None
                 | c # r' \<Rightarrow>
                     (if c = hyphen then
                        (case match_digits r' of
                           None \<Rightarrow> None
                         | Some (m, r'') \<Rightarrow>
                             (if r'' = dot_md then Some (n @ [hyphen] @ m) else None))
                      else None))))"

text \<open>Second alternative: the extra prefix, a hyphen, \<open>\d+\<close>, followed by \<open>\.md$\<close>.\<close>

definition match_extra :: "ustring \<Rightarrow> ustring option" where
  "match_extra f =
     (if prefix (extra_prefix @ [hyphen]) f then
        (case match_digits (drop 4 f) of
           None \<Rightarrow> None
         | Some (m, r) \<Rightarrow>
             (if r = dot_md then Some (extra_prefix @ [hyphen] @ m) else None))
      else None)"

definition extractEpisodeId :: "ustring \<Rightarrow> ustring option" where
  "extractEpisodeId filename =
     (case match_numbered filename of
        Some i \<Rightarrow> Some i
      | None \<Rightarrow> match_extra filename)"

section \<open>generateTitle\<close>

datatype error = TypeError

text \<open>\<^verbatim>\<open>line.replace(/^##\s*/, '')\<close>.\<close>

definition strip_hash2 :: "ustring \<Rightarrow> ustring" where
  "strip_hash2 line = (if prefix hash2 line then dropWhile is_space (drop 2 line) else line)"

text \<open>\<^verbatim>\<open>id.split('-')[1]\<close> inside a template literal: the second part, or the text
  \<open>undefined\<close> when there is none.\<close>

definition second_part_text :: "ustring \<Rightarrow> ustring" where
  "second_part_text i = (case split_str hyphen i of _ # p # _ \<Rightarrow> p | _ \<Rightarrow> undefined_str)"

text \<open>The \<open>for\<close> loop over the lines: the first line that starts with \<open>##\<close> and does not
  include the summary word returns; the lines are not trimmed before the test.\<close>

fun title_scan :: "ustring list \<Rightarrow> ustring option" where
  "title_scan [] = None"
| "title_scan (line # rest) =
     (if startsWith line hash2 \<and> \<not> includes_str line summary_word
      then Some (trim (strip_hash2 line))
      else title_scan rest)"

text \<open>With a null id the test \<open>id === '0'\<close> is false and \<open>id.startsWith\<close> throws a
  TypeError.\<close>

definition generateTitle :: "ustring \<Rightarrow> ustring \<Rightarrow> error + ustring" where
  "generateTitle filename content =
     (case extractEpisodeId filename of
        None \<Rightarrow> Inl TypeError
      | Some i \<Rightarrow>
          (if i = id_zero then Inr title_zero
           else if startsWith i extra_prefix then Inr (extra_title_prefix @ second_part_text i)
           else (case title_scan (split_str newline content) of
                   Some t \<Rightarrow> Inr t
                 | None \<Rightarrow> Inr (episode_label @ i))))"

section \<open>parseMarkdown\<close>

text \<open>A JavaScript \<open>Set\<close> of strings keeps its elements in insertion order and ignores the
  insertion of an element it has: a duplicate-free list, extended at the end.
  \<open>set_from\<close> is \<open>new Set(array)\<close>.\<close>

definition set_add :: "'a \<Rightarrow> 'a list \<Rightarrow> 'a list" where
  "set_add x s = (if x \<in> set s then s else s @ [x])"

definition set_from :: "'a list \<Rightarrow> 'a list" where
  "set_from xs = fold set_add xs []"

text \<open>The 27 theme terms and the 39 keyword terms, in the order of the source.\<close>

definition themePatterns :: "ustring list" where
  "themePatterns =
  [[20685, 12365, 26041],
   [12461, 12515, 12522, 12450],
   [29702, 23398, 30274, 27861],
   [27508, 21490],
   [12513, 12531, 12479, 12523, 12504, 12523, 12473],
   [31934, 31070, 21307, 30274],
   [25945, 32946],
   [30740, 31350],
   [36215, 26989],
   [12499, 12472, 12493, 12473],
   [21746, 23398],
   [31185, 23398],
   [12456, 12499, 12487, 12531, 12473],
   [35413, 20385],
   [27835, 30274],
   [20844, 34886, 34907, 29983],
   [22320, 22495, 21253, 25324, 12465, 12450],
   [39640, 40802, 21270],
   [20171, 35703],
   [30330, 36948, 38556, 23475],
   [35469, 30693, 30151],
   [12358, 12388],
   [12473, 12488, 12524, 12473],
   [12473, 12509, 12540, 12484],
   [12522, 12495, 12499, 12522, 12486, 12540, 12471, 12519, 12531],
   [36523, 20307],
   [36939, 21205, 30274, 27861]]"

definition importantTerms :: "ustring list" where
  "importantTerms =
  [[12475, 12521, 12500, 12473, 12488],
   [29702, 23398, 30274, 27861, 22763],
   [80, 84],
   [79, 84],
   [20316, 26989, 30274, 27861, 22763],
   [24739, 32773],
   [27835, 30274],
   [35413, 20385],
   [20171, 20837],
   [12522, 12495, 12499, 12522],
   [30149, 38498],
   [26045, 35373],
   [22320, 22495],
   [22312, 23429],
   [35370, 21839],
   [12456, 12499, 12487, 12531, 12473],
   [69, 66, 77],
   [30740, 31350],
   [35542, 25991],
   [23398, 34899],
   [25945, 32946],
   [39178, 25104],
   [22823, 23398],
   [21332, 20250],
   [36039, 26684],
   [12513, 12531, 12479, 12523],
   [31934, 31070],
   [24515, 29702],
   [12473, 12488, 12524, 12473],
   [12454, 12455, 12523, 12499, 12540, 12452, 12531, 12464],
   [36215, 26989],
   [29420, 31435],
   [12501, 12522, 12540, 12521, 12531, 12473],
   [12467, 12531, 12469, 12523],
   [36939, 21205],
   [36523, 20307],
   [27231, 33021],
   [21205, 20316],
   [23039, 21218]]"

text \<open>\<open>extractThemes\<close>: the terms that the whole content includes are pushed in vocabulary
  order, and the array passes through a \<open>Set\<close>.\<close>

definition extractThemes :: "ustring \<Rightarrow> ustring list" where
  "extractThemes content = set_from (filter (\<lambda>theme. includes_str content theme) themePatterns)"

text \<open>\<open>extractKeywords\<close> adds to the set it is given, which the caller keeps across lines.\<close>

definition extractKeywords :: "ustring \<Rightarrow> ustring list \<Rightarrow> ustring list" where
  "extractKeywords text keywordSet =
     fold (\<lambda>term ks. if includes_str text term then set_add term ks else ks)
       importantTerms keywordSet"

text \<open>\<^verbatim>\<open>line.replace(/^###\s*/, '').replace(/D\s*/, '')\<close>, D the diamond U+25C6: the second
  replacement removes the first diamond of the line, wherever it is, and the white space
  after it.\<close>

definition strip_hash3 :: "ustring \<Rightarrow> ustring" where
  "strip_hash3 line = (if prefix hash3 line then dropWhile is_space (drop 3 line) else line)"

definition strip_diamond :: "ustring \<Rightarrow> ustring" where
  "strip_diamond s =
     (case dropWhile (\<lambda>c. c \<noteq> diamond) s of
        [] \<Rightarrow> s
      | _ # r \<Rightarrow> takeWhile (\<lambda>c. c \<noteq> diamond) s @ dropWhile is_space r)"

text \<open>\<^verbatim>\<open>s.replace(/^>\s*/, '')\<close>.\<close>

definition strip_quote :: "ustring \<Rightarrow> ustring" where
  "strip_quote s = (case s of [] \<Rightarrow> [] | c # r \<Rightarrow> if c = gt_sign then dropWhile is_space r else s)"

text \<open>The variables the loop of \<open>parseMarkdown\<close> updates.\<close>

record scan_state =
  inSummary :: bool
  summaryLines :: "ustring list"
  sections_acc :: "ustring list"
  keywords_acc :: "ustring list"

text \<open>One iteration of the loop, on the raw line \<open>lines[i]\<close>. A line that starts with the
  Summary header sets the flag and \<open>continue\<close>s: nothing below runs for it.\<close>

definition scan_line :: "scan_state \<Rightarrow> ustring \<Rightarrow> scan_state" where
  "scan_line st raw =
     (let line = trim raw in
      if startsWith line summary_header then st\<lparr>inSummary := True\<rparr>
      else
        let st1 =
              (if inSummary st then
                 (if startsWith line hash2 \<or> startsWith line hash3 then st\<lparr>inSummary := False\<rparr>
                  else if length line > 0 then st\<lparr>summaryLines := summaryLines st @ [line]\<rparr>
                  else st)
               else st);
            st2 =
              (if startsWith line hash3
               then st1\<lparr>sections_acc := sections_acc st1 @ [strip_diamond (strip_hash3 line)]\<rparr>
               else st1)
        in st2\<lparr>keywords_acc := extractKeywords line (keywords_acc st2)\<rparr>)"

definition scan_init :: scan_state where
  "scan_init = \<lparr>inSummary = False, summaryLines = [], sections_acc = [], keywords_acc = []\<rparr>"

record parsed =
  summary :: ustring
  themes :: "ustring list"
  keywords_ep :: "ustring list"
  sections :: "ustring list"
  content :: ustring

text \<open>\<open>substring(0, 500)\<close> keeps the first 500 code units. The \<open>filename\<close> parameter is not
  used by the source.\<close>

definition parseMarkdown :: "ustring \<Rightarrow> ustring \<Rightarrow> parsed" where
  "parseMarkdown text filename =
     (let st = foldl scan_line scan_init (split_str newline text)
      in \<lparr>summary = take 500 (strip_quote (join_str space_str (summaryLines st))),
          themes = extractThemes text,
          keywords_ep = keywords_acc st,
          sections = sections_acc st,
          content = text\<rparr>)"

section \<open>JavaScript numbers\<close>

text \<open>
  A JavaScript number is an IEEE 754 binary64 value, and every arithmetic operation returns
  the exact result rounded to the nearest representable value, ties to the even significand.
  A finite number is modelled by the rational it denotes, and \<open>fl\<close> is that rounding for
  a 53-bit significand: \<open>expo q\<close> is the exponent \<open>e\<close> with \<open>2^e \<le> q < 2^(e+1)\<close>, one unit
  in the last place is \<open>2^(e-52)\<close>, and \<open>q\<close> goes to the nearest multiple of it. This
  is binary64 for \<open>2^(-1022) \<le> |q| < 2^1024\<close> and for 0. The program only computes
  array lengths, quotients \<open>2s/t\<close> of them with \<open>s \<le> t < 2^33\<close>, products and sums of
  those that stay below 101, and sort keys from the decimal fields of file names, which
  stay below \<open>2^1024\<close> for a name of fewer than 300 characters: it never leaves that
  range.
\<close>

definition expo :: "rat \<Rightarrow> int" where
  "expo q =
     (let (a, b) = quotient_of q; d = bitlen a - bitlen b
      in if 2 powi d \<le> q then d else d - 1)"

text \<open>Rounding to the nearest integer, halves to the even one.\<close>

definition rne :: "rat \<Rightarrow> int" where
  "rne x =
     (let f = \<lfloor>x\<rfloor>; r = x - of_int f
      in if r < 1 / 2 then f
         else if 1 / 2 < r then f + 1
         else if even f then f else f + 1)"

definition fl :: "rat \<Rightarrow> rat" where
  "fl q =
     (if q = 0 then 0
      else let u = 2 powi (expo \<bar>q\<bar> - 52)
           in sgn q * of_int (rne (\<bar>q\<bar> / u)) * u)"

definition num_div :: "rat \<Rightarrow> rat \<Rightarrow> rat" where
  "num_div a b = fl (a / b)"

definition num_mul :: "rat \<Rightarrow> rat \<Rightarrow> rat" where
  "num_mul a b = fl (a * b)"

definition num_add :: "rat \<Rightarrow> rat \<Rightarrow> rat" where
  "num_add a b = fl (a + b)"

text \<open>The decimal literals \<open>0.6\<close>, \<open>0.4\<close> and \<open>0.3\<close> denote the nearest binary64 values.\<close>

definition lit_0_6 :: rat where "lit_0_6 = fl (6 / 10)"
definition lit_0_4 :: rat where "lit_0_4 = fl (4 / 10)"
definition lit_0_3 :: rat where "lit_0_3 = fl (3 / 10)"

text \<open>\<open>Math.round\<close>: the nearest integer, halves upwards.\<close>

definition Math_round :: "rat \<Rightarrow> int" where
  "Math_round x = \<lfloor>x + 1 / 2\<rfloor>"

section \<open>calculateSimilarity and findRelatedEpisodes\<close>

text \<open>An episode is the parsed record spread into an object with \<open>id\<close>, \<open>filename\<close> and
  \<open>title\<close>; the second pass adds \<open>relatedEpisodes\<close>.\<close>

record episode = parsed +
  id_ep :: ustring
  filename :: ustring
  title :: ustring

record related =
  id_rel :: ustring
  title_rel :: ustring
  similarity :: int

record indexed_episode = episode +
  relatedEpisodes :: "related list"

definition calculateSimilarity :: "'a parsed_scheme \<Rightarrow> 'b parsed_scheme \<Rightarrow> rat" where
  "calculateSimilarity episode1 episode2 =
     (let keywords1 = set_from (keywords_ep episode1);
          keywords2 = set_from (keywords_ep episode2);
          themes1 = set_from (themes episode1);
          themes2 = set_from (themes episode2);
          sharedKeywords = length (filter (\<lambda>k. k \<in> set keywords2) keywords1);
          sharedThemes = length (filter (\<lambda>t. t \<in> set themes2) themes1);
          totalKeywords = length keywords1 + length keywords2;
          totalThemes = length themes1 + length themes2;
          keywordScore =
            (if totalKeywords > 0
             then num_div (of_nat (sharedKeywords * 2)) (of_nat totalKeywords) else 0);
          themeScore =
            (if totalThemes > 0
             then num_div (of_nat (sharedThemes * 2)) (of_nat totalThemes) else 0)
      in num_add (num_mul keywordScore lit_0_6) (num_mul themeScore lit_0_4))"

text \<open>The \<open>forEach\<close> of \<open>findRelatedEpisodes\<close>, pushing to \<open>related\<close>.\<close>

fun related_loop ::
  "episode \<Rightarrow> rat \<Rightarrow> episode list \<Rightarrow> related list \<Rightarrow> related list" where
  "related_loop currentEpisode threshold [] related = related"
| "related_loop currentEpisode threshold (episode # rest) related =
     related_loop currentEpisode threshold rest
       (if id_ep episode \<noteq> id_ep currentEpisode then
          (let sim = calculateSimilarity currentEpisode episode
           in if sim \<ge> threshold
              then related @ [\<lparr>id_rel = id_ep episode, title_rel = title episode,
                               similarity = Math_round (num_mul sim 100)\<rparr>]
              else related)
        else related)"

text \<open>\<open>Array.prototype.sort\<close> is stable, and the comparator \<open>b.similarity - a.similarity\<close>
  orders by descending similarity: a stable sort on the negated key. \<open>slice(0, 5)\<close> keeps
  the first five.\<close>

definition findRelatedEpisodes :: "episode \<Rightarrow> episode list \<Rightarrow> rat \<Rightarrow> related list" where
  "findRelatedEpisodes currentEpisode allEpisodes threshold =
     take 5 (sort_key (\<lambda>r. - similarity r) (related_loop currentEpisode threshold allEpisodes []))"

section \<open>processAllFiles\<close>

text \<open>\<open>parseInt\<close> on a string that starts with a decimal digit, the only kind an id that
  matched the pattern hands to it: the number nearest to the value of the leading digits
  (the language asks for exactly this up to 20 significant digits). \<open>None\<close> is NaN, the
  result when there is no leading digit.\<close>

definition digit_value :: "uchar \<Rightarrow> int" where
  "digit_value c = uint c - 48"

definition decimal :: "ustring \<Rightarrow> int" where
  "decimal ds = foldl (\<lambda>v c. 10 * v + digit_value c) 0 ds"

definition parseInt :: "ustring \<Rightarrow> rat option" where
  "parseInt s = (case takeWhile is_digit s of [] \<Rightarrow> None | ds \<Rightarrow> Some (fl (of_int (decimal ds))))"

text \<open>\<open>getOrder\<close> of the sort comparator; arithmetic on NaN gives NaN. An empty second part
  is falsy and counts as 0.\<close>

definition getOrder :: "ustring \<Rightarrow> rat option" where
  "getOrder i =
     (if i = id_zero then Some 0
      else if startsWith i extra_prefix then
        (case split_str hyphen i of
           _ # p # _ \<Rightarrow> map_option (\<lambda>n. num_add 1000 n) (parseInt p)
         | _ \<Rightarrow> None)
      else
        (case split_str hyphen i of
           p0 # p1 # _ \<Rightarrow>
             (case parseInt p0 of
                None \<Rightarrow> None
              | Some n \<Rightarrow>
                  (if p1 \<noteq> [] then map_option (\<lambda>m. num_add (num_mul n 10) m) (parseInt p1)
                   else Some (num_add (num_mul n 10) 0)))
         | [p0] \<Rightarrow> map_option (\<lambda>n. num_add (num_mul n 10) 0) (parseInt p0)
         | [] \<Rightarrow> None))"

text \<open>The final sort: the comparator \<open>getOrder(a.id) - getOrder(b.id)\<close> orders by ascending
  key, and the sort is stable. Every id of the corpus matched the pattern, so its key is a
  number (lemma \<open>getOrder_defined\<close> below); the 0 that \<open>order_key\<close> gives to NaN is never
  used.\<close>

definition order_key :: "'a episode_scheme \<Rightarrow> rat" where
  "order_key e = (case getOrder (id_ep e) of Some n \<Rightarrow> n | None \<Rightarrow> 0)"

text \<open>The first pass, on a new processor, whose \<open>episodes\<close> array is empty. The
  directory is the list of its file names, in the order \<open>readdirSync\<close> returns them,
  each with the content \<open>readFileSync\<close> reads; a failure of the file system is outside
  the model. An exception of \<open>generateTitle\<close> ends the run.\<close>

fun first_pass :: "(ustring \<times> ustring) list \<Rightarrow> episode list \<Rightarrow> error + episode list" where
  "first_pass [] episodes = Inr episodes"
| "first_pass ((file, text) # rest) episodes =
     (case extractEpisodeId file of
        None \<Rightarrow> first_pass rest episodes
      | Some episodeId \<Rightarrow>
          (let p = parseMarkdown text file
           in case generateTitle file text of
                Inl e \<Rightarrow> Inl e
              | Inr t \<Rightarrow>
                  first_pass rest
                    (episodes @ [parsed.extend p (episode.fields episodeId file t)])))"

text \<open>The second pass assigns \<open>relatedEpisodes\<close> to each episode in turn; computing it reads
  only \<open>id\<close>, \<open>title\<close>, \<open>keywords\<close> and \<open>themes\<close> of the others, which the assignments
  do not change.\<close>

definition second_pass :: "episode list \<Rightarrow> indexed_episode list" where
  "second_pass episodes =
     map (\<lambda>e. episode.extend e (indexed_episode.fields (findRelatedEpisodes e episodes lit_0_3)))
       episodes"

definition processAllFiles :: "(ustring \<times> ustring) list \<Rightarrow> error + indexed_episode list" where
  "processAllFiles dir =
     (let files = filter (\<lambda>(f, _). endsWith f dot_md \<and> f \<noteq> readme_md) dir
      in case first_pass files [] of
           Inl e \<Rightarrow> Inl e
         | Inr episodes \<Rightarrow> Inr (sort_key order_key (second_pass episodes)))"

section \<open>The specification's notions\<close>

subsection \<open>The id pattern\<close>

text \<open>The id pattern in the specification's words: digits only; digits, a hyphen and digits;
  or the extra-episode prefix, a hyphen and digits. A filename matches when it is such an
  id followed by the markdown extension.\<close>

definition digits :: "ustring \<Rightarrow> bool" where
  "digits s = (s \<noteq> [] \<and> list_all is_digit s)"

definition id_form :: "ustring \<Rightarrow> bool" where
  "id_form i =
     (case split_str hyphen i of
        [a] \<Rightarrow> digits a
      | [a, b] \<Rightarrow> (digits a \<or> a = extra_prefix) \<and> digits b
      | _ \<Rightarrow> False)"

definition id_pattern :: "ustring \<Rightarrow> bool" where
  "id_pattern f = (endsWith f dot_md \<and> id_form (take (length f - 3) f))"

subsection \<open>The record the first pass builds from one file\<close>

definition build_episode :: "ustring \<times> ustring \<Rightarrow> episode option" where
  "build_episode fc =
     (case extractEpisodeId (fst fc) of
        None \<Rightarrow> None
      | Some i \<Rightarrow>
          (case generateTitle (fst fc) (snd fc) of
             Inl _ \<Rightarrow> None
           | Inr t \<Rightarrow>
               Some (parsed.extend (parseMarkdown (snd fc) (fst fc))
                       (episode.fields i (fst fc) t))))"

subsection \<open>The similarity score\<close>

text \<open>The Dice coefficient of two sets, in the arithmetic of JavaScript numbers:
  \<open>2\<sqdot>|A \<inter> B| / (|A| + |B|)\<close>, and 0 when the denominator is 0.\<close>

definition dice :: "'a set \<Rightarrow> 'a set \<Rightarrow> rat" where
  "dice A B =
     (if card A + card B = 0 then 0
      else num_div (of_nat (2 * card (A \<inter> B))) (of_nat (card A + card B)))"

text \<open>The same coefficient in exact arithmetic.\<close>

definition dice_exact :: "'a set \<Rightarrow> 'a set \<Rightarrow> rat" where
  "dice_exact A B =
     (if card A + card B = 0 then 0
      else of_nat (2 * card (A \<inter> B)) / of_nat (card A + card B))"

text \<open>The entry \<open>findRelatedEpisodes\<close> pushes for an episode, and the test it pushes it
  under.\<close>

definition related_entry :: "episode \<Rightarrow> episode \<Rightarrow> related" where
  "related_entry cur e =
     \<lparr>id_rel = id_ep e, title_rel = title e,
      similarity = Math_round (num_mul (calculateSimilarity cur e) 100)\<rparr>"

definition related_to :: "episode \<Rightarrow> rat \<Rightarrow> episode \<Rightarrow> bool" where
  "related_to cur threshold e =
     (id_ep e \<noteq> id_ep cur \<and> threshold \<le> calculateSimilarity cur e)"

subsection \<open>The sort key\<close>

text \<open>The key of a numbered id with integer part \<open>n\<close> and suffix \<open>m\<close>, and of an extra
  episode with suffix \<open>m\<close>, in the arithmetic of JavaScript numbers; the key of an id, 0
  standing in for NaN.\<close>

definition numbered_key :: "int \<Rightarrow> int \<Rightarrow> rat" where
  "numbered_key n m = num_add (num_mul (fl (of_int n)) 10) (fl (of_int m))"

definition extra_key :: "int \<Rightarrow> rat" where
  "extra_key m = num_add 1000 (fl (of_int m))"

definition id_key :: "ustring \<Rightarrow> rat" where
  "id_key i = (case getOrder i of Some n \<Rightarrow> n | None \<Rightarrow> 0)"

subsection \<open>The summary\<close>

text \<open>The lines are trimmed before anything is tested. \<open>parseMarkdown\<close> takes for the
  Summary header a line that starts with the header literal, and for a heading a line that
  starts with the level-2 or the level-3 marker.\<close>

definition trimmed_lines :: "ustring \<Rightarrow> ustring list" where
  "trimmed_lines body = map trim (split_str newline body)"

definition is_summary_header :: "ustring \<Rightarrow> bool" where
  "is_summary_header l = startsWith l summary_header"

definition is_heading :: "ustring \<Rightarrow> bool" where
  "is_heading l = (startsWith l hash2 \<or> startsWith l hash3)"

text \<open>Joined with a single space: the first line, then each further line behind one space.
  A leading quote marker stripped: the marker \<open>>\<close> at the very start goes, with the white
  space after it.\<close>

definition joined :: "ustring list \<Rightarrow> ustring" where
  "joined ls = (case ls of [] \<Rightarrow> [] | x # xs \<Rightarrow> x @ concat (map (\<lambda>l. 32 # l) xs))"

definition unquoted :: "ustring \<Rightarrow> ustring" where
  "unquoted s = (if prefix [62] s then dropWhile is_space (drop 1 s) else s)"

text \<open>The non-empty lines between the first Summary header and the next heading, and the
  lines from that heading on.\<close>

definition summary_section :: "ustring list \<Rightarrow> ustring list" where
  "summary_section ls =
     (case dropWhile (\<lambda>l. \<not> is_summary_header l) ls of
        [] \<Rightarrow> []
      | h # rest \<Rightarrow> filter (\<lambda>l. l \<noteq> []) (takeWhile (\<lambda>l. \<not> is_heading l) rest))"

definition after_section :: "ustring list \<Rightarrow> ustring list" where
  "after_section ls =
     dropWhile (\<lambda>l. \<not> is_heading l) (tl (dropWhile (\<lambda>l. \<not> is_summary_header l) ls))"

text \<open>The summary in the claim's words. The Summary header is a line that is the header
  literal; the summary is made of the non-empty lines between the first such line and the
  next heading, joined, unquoted and cut to 500; it is empty when no line is the header.\<close>

definition claimed_summary :: "ustring \<Rightarrow> ustring" where
  "claimed_summary body =
     (case dropWhile (\<lambda>l. l \<noteq> summary_header) (trimmed_lines body) of
        [] \<Rightarrow> []
      | h # rest \<Rightarrow>
          take 500 (unquoted (joined (filter (\<lambda>l. l \<noteq> []) (takeWhile (\<lambda>l. \<not> is_heading l) rest)))))"

text \<open>All Summary sections, one after the other: the section that the first Summary header
  opens, then the sections of the lines from its closing heading on (that heading may be
  a Summary header itself).\<close>

function captured :: "ustring list \<Rightarrow> ustring list" where
  "captured ls =
     (case dropWhile (\<lambda>l. \<not> is_summary_header l) ls of
        [] \<Rightarrow> []
      | h # rest \<Rightarrow>
          filter (\<lambda>l. l \<noteq> []) (takeWhile (\<lambda>l. \<not> is_heading l) rest)
          @ captured (dropWhile (\<lambda>l. \<not> is_heading l) rest))"
  by pat_completeness auto
termination
proof (relation "measure length")
  fix ls :: "ustring list" and h rest
  assume "dropWhile (\<lambda>l. \<not> is_summary_header l) ls = h # rest"
  then have "length (h # rest) \<le> length ls"
    using length_dropWhile_le [of "\<lambda>l. \<not> is_summary_header l" ls] by simp
  moreover have "length (dropWhile (\<lambda>l. \<not> is_heading l) rest) \<le> length rest"
    by (rule length_dropWhile_le)
  ultimately show "(dropWhile (\<lambda>l. \<not> is_heading l) rest, ls) \<in> measure length" by simp
qed simp

declare captured.simps [simp del]

text \<open>The scan of \<open>parseMarkdown\<close> reduced to its flag and the lines it keeps; the proofs go
  through it.\<close>

fun capture :: "bool \<Rightarrow> ustring list \<Rightarrow> ustring list" where
  "capture on [] = []"
| "capture on (l # ls) =
     (if is_summary_header l then capture True ls
      else if on then
        (if is_heading l then capture False ls
         else (if l \<noteq> [] then [l] else []) @ capture True ls)
      else capture False ls)"

subsection \<open>The title\<close>

text \<open>A level-2 heading line begins with the marker \<open>##\<close> and not with \<open>###\<close>; its text
  is what follows the marker, trimmed. The title in the claim's words comes from the first
  level-2 heading line that is not the Summary header.\<close>

definition level2_heading :: "ustring \<Rightarrow> bool" where
  "level2_heading l = (startsWith l hash2 \<and> \<not> startsWith l hash3)"

definition heading_text :: "ustring \<Rightarrow> ustring" where
  "heading_text l = trim (drop 2 l)"

definition claimed_title :: "ustring \<Rightarrow> ustring list \<Rightarrow> ustring" where
  "claimed_title i ls =
     (case List.find (\<lambda>l. level2_heading l \<and> \<not> is_summary_header l) ls of
        Some l \<Rightarrow> heading_text l
      | None \<Rightarrow> episode_label @ i)"

text \<open>What \<open>generateTitle\<close> looks for instead: a line that begins with \<open>##\<close>, whatever
  follows, and holds the Summary word nowhere.\<close>

definition holds_summary_word :: "ustring \<Rightarrow> bool" where
  "holds_summary_word l = includes_str l summary_word"

definition title_candidate :: "ustring \<Rightarrow> bool" where
  "title_candidate l = (startsWith l hash2 \<and> \<not> holds_summary_word l)"

subsection \<open>The vocabulary match\<close>

text \<open>The one operation of the specification, \<open>match(text, vocabulary)\<close>: the terms of
  the vocabulary that the text includes. A plain term is a non-empty term without white
  space.\<close>

definition vocabulary_match :: "ustring \<Rightarrow> ustring list \<Rightarrow> ustring list" where
  "vocabulary_match t vocabulary = filter (\<lambda>v. includes_str t v) vocabulary"

definition plain_term :: "ustring \<Rightarrow> bool" where
  "plain_term v = (v \<noteq> [] \<and> list_all (\<lambda>c. \<not> is_space c) v)"

section \<open>Example inputs\<close>

text \<open>The file names \<open>notes.txt\<close>, \<open>0.md\<close>, \<open>1.md\<close>, \<open>2.md\<close> and
  \<open>2-1.md\<close>.\<close>

definition notes_txt :: ustring where
  "notes_txt = [110, 111, 116, 101, 115, 46, 116, 120, 116]"

definition name_0 :: ustring where "name_0 = [48, 46, 109, 100]"
definition name_1 :: ustring where "name_1 = [49, 46, 109, 100]"
definition name_2 :: ustring where "name_2 = [50, 46, 109, 100]"
definition name_2_1 :: ustring where "name_2_1 = [50, 45, 49, 46, 109, 100]"

text \<open>Vocabulary terms used in the examples: \<open>PT\<close>, and the terms for research (U+7814
  U+7A76), education (U+6559 U+80B2), science (U+79D1 U+5B66), physical therapy (U+7406
  U+5B66 U+7642 U+6CD5) and physical therapist (the same followed by U+58EB).\<close>

definition term_PT :: ustring where "term_PT = [80, 84]"
definition term_research :: ustring where "term_research = [30740, 31350]"
definition term_education :: ustring where "term_education = [25945, 32946]"
definition term_science :: ustring where "term_science = [31185, 23398]"
definition term_therapy :: ustring where "term_therapy = [29702, 23398, 30274, 27861]"
definition term_therapist :: ustring where "term_therapist = [29702, 23398, 30274, 27861, 22763]"

text \<open>The two episodes of the specification's worked example.\<close>

definition episode_A :: parsed where
  "episode_A = \<lparr>summary = [], themes = [term_education],
                 keywords_ep = [term_PT, term_research], sections = [], content = []\<rparr>"

definition episode_B :: parsed where
  "episode_B = \<lparr>summary = [], themes = [term_education, term_science],
                 keywords_ep = [term_PT], sections = [], content = []\<rparr>"

text \<open>A directory with \<open>2.md\<close> (content \<open>PT\<close>), \<open>README.md\<close> and \<open>1.md\<close>
  (content \<open>PT\<close>, a space and the term for science), and the corpus built from it.\<close>

definition ex_dir :: "(ustring \<times> ustring) list" where
  "ex_dir = [(name_2, term_PT),
             (readme_md, term_PT),
             (name_1, term_PT @ [32] @ term_science)]"

definition ex_corpus :: "indexed_episode list" where
  "ex_corpus =
     [\<lparr>summary = [], themes = [term_science], keywords_ep = [term_PT],
         sections = [], content = term_PT @ [32] @ term_science, id_ep = [49],
         filename = name_1,
         title = episode_label @ [49],
         relatedEpisodes =
           [\<lparr>id_rel = [50], title_rel = episode_label @ [50], similarity = 60\<rparr>]\<rparr>,
      \<lparr>summary = [], themes = [], keywords_ep = [term_PT], sections = [],
         content = term_PT, id_ep = [50], filename = name_2,
         title = episode_label @ [50],
         relatedEpisodes =
           [\<lparr>id_rel = [49], title_rel = episode_label @ [49], similarity = 60\<rparr>]\<rparr>]"

text \<open>The file names \<open>101.md\<close> and that of the first extra episode, with their ids; a
  directory with those two files, empty, and the corpus built from it.\<close>

definition name_101 :: ustring where "name_101 = [49, 48, 49, 46, 109, 100]"
definition name_extra_1 :: ustring where "name_extra_1 = [30058, 22806, 32232, 45, 49, 46, 109, 100]"
definition id_extra_1 :: ustring where "id_extra_1 = [30058, 22806, 32232, 45, 49]"

definition id_101 :: ustring where "id_101 = [49, 48, 49]"

definition cx_dir :: "(ustring \<times> ustring) list" where
  "cx_dir = [(name_101, []), (name_extra_1, [])]"

definition cx_corpus :: "indexed_episode list" where
  "cx_corpus =
     [\<lparr>summary = [], themes = [], keywords_ep = [], sections = [], content = [],
        id_ep = id_extra_1, filename = name_extra_1, title = extra_title_prefix @ [49],
        relatedEpisodes = []\<rparr>,
      \<lparr>summary = [], themes = [], keywords_ep = [], sections = [], content = [],
        id_ep = id_101, filename = name_101, title = episode_label @ id_101,
        relatedEpisodes = []\<rparr>]"

text \<open>A document of four lines: the Summary header; a quoted line \<open>> a\<close>; the heading
  \<open>T1\<close> with a blank more on either side; the heading \<open>T2\<close>. A document of one line:
  the Summary header, a space and the term for physical therapist.\<close>

definition title_doc :: ustring where
  "title_doc = summary_header @ [10, 62, 32, 97, 10, 35, 35, 32, 32, 84, 49, 32, 10, 35, 35, 32, 84, 50]"

definition header_doc :: ustring where
  "header_doc = summary_header @ [32] @ term_therapist"

text \<open>A document of four lines: the Summary header; the quoted line \<open>> a\<close>; a level-3
  heading, \<open>###\<close>, a diamond and the word U+5C0E U+5165 (introduction); a level-2
  heading with the word U+672C U+984C (main topic). The text of the level-3 line after
  two of its three marks, and the text of the level-2 heading.\<close>

definition section_doc :: ustring where
  "section_doc = summary_header @
     [10, 62, 32, 97, 10, 35, 35, 35, 32, 9670, 32, 23566, 20837, 10, 35, 35, 32, 26412, 38988]"

definition deeper_title :: ustring where "deeper_title = [35, 32, 9670, 32, 23566, 20837]"
definition main_title :: ustring where "main_title = [26412, 38988]"

text \<open>A document of two lines: a level-2 heading whose text is U+524D U+56DE U+306E
  (of last time) followed by the Summary word, and the level-2 heading of the main topic;
  the text of the first heading.\<close>

definition word_doc :: ustring where
  "word_doc = [35, 35, 32, 21069, 22238, 12398] @ summary_word @ [10, 35, 35, 32, 26412, 38988]"

definition recap_title :: ustring where "recap_title = [21069, 22238, 12398] @ summary_word"

text \<open>A document with two Summary sections: the Summary header, \<open>> foo\<close>, an empty line,
  \<open>b\<close> between blanks, the heading \<open>## x\<close>, the Summary header again, \<open>bar\<close>. A
  document whose first line is the Summary header followed by \<open>X\<close>, and whose second
  line is \<open>foo\<close>.\<close>

definition two_doc :: ustring where
  "two_doc = summary_header @ [10, 62, 32, 102, 111, 111, 10, 10, 32, 98, 32, 10, 35, 35, 32, 120, 10]
     @ summary_header @ [10, 98, 97, 114]"

definition prefix_doc :: ustring where
  "prefix_doc = summary_header @ [88, 10, 102, 111, 111]"

text \<open>A document with one Summary section of several lines: the Summary header, \<open>> foo\<close>,
  an empty line, \<open>b\<close> between blanks, the heading \<open>## x\<close>, and the line \<open>bar\<close> after
  it. A document whose Summary section is one line of 600 letters \<open>a\<close>.\<close>

definition one_doc :: ustring where
  "one_doc = summary_header @
     [10, 62, 32, 102, 111, 111, 10, 10, 32, 98, 32, 10, 35, 35, 32, 120, 10, 98, 97, 114]"

definition long_doc :: ustring where
  "long_doc = summary_header @ 10 # replicate 600 97"

text \<open>The file name \<open>0-0.md\<close>.\<close>

definition name_0_0 :: ustring where "name_0_0 = [48, 45, 48, 46, 109, 100]"

section \<open>The id resolver matches exactly the id pattern\<close>

lemma split_str_nonempty: "split_str d s \<noteq> []"
  by (induction s) (auto split: list.splits)

lemma split_str_no_sep: "d \<notin> set s \<Longrightarrow> split_str d s = [s]"
  by (induction s) auto

lemma split_str_append: "d \<notin> set a \<Longrightarrow> split_str d (a @ d # b) = a # split_str d b"
  by (induction a) auto

lemma split_str_single: "split_str d s = [a] \<Longrightarrow> s = a \<and> d \<notin> set a"
proof (induction s arbitrary: a)
  case Nil
  then show ?case by simp
next
  case (Cons c s)
  then show ?case
    using split_str_nonempty [of d s]
    by (auto split: if_splits list.splits)
qed

lemma split_str_cons: "split_str d s = a # b # r \<Longrightarrow> \<exists>t. s = a @ d # t \<and> d \<notin> set a \<and> split_str d t = b # r"
proof (induction s arbitrary: a)
  case Nil
  then show ?case by simp
next
  case (Cons c s)
  show ?case
  proof (cases "c = d")
    case True
    with Cons.prems show ?thesis by auto
  next
    case False
    with Cons.prems obtain l where l: "split_str d s = l # b # r" "a = c # l"
      by (auto split: list.splits)
    from Cons.IH [OF l(1)] obtain t where "s = l @ d # t" "d \<notin> set l" "split_str d t = b # r"
      by blast
    with l False show ?thesis by auto
  qed
qed

lemma digits_no_hyphen: "digits s \<Longrightarrow> hyphen \<notin> set s"
  by (auto simp: digits_def list_all_iff is_digit_def hyphen_def)

lemma takeWhile_stop: "r = [] \<or> \<not> P (hd r) \<Longrightarrow> takeWhile P r = [] \<and> dropWhile P r = r"
  by (cases r) auto

lemma match_digits_Some:
  assumes "match_digits s = Some (ds, r)"
  shows "s = ds @ r \<and> digits ds \<and> (r = [] \<or> \<not> is_digit (hd r))"
proof -
  from assms have ds: "ds = takeWhile is_digit s" "ds \<noteq> []" and r: "r = dropWhile is_digit s"
    by (auto simp: match_digits_def Let_def split: if_splits)
  have "s = ds @ r" using ds r by simp
  moreover have "digits ds"
    using ds by (auto simp: digits_def list_all_iff dest: set_takeWhileD)
  moreover have "r = [] \<or> \<not> is_digit (hd r)"
    unfolding r using hd_dropWhile [of is_digit s] by blast
  ultimately show ?thesis by simp
qed

lemma match_digits_append:
  assumes "digits ds" "r = [] \<or> \<not> is_digit (hd r)"
  shows "match_digits (ds @ r) = Some (ds, r)"
proof -
  have all: "\<And>x. x \<in> set ds \<Longrightarrow> is_digit x" and ne: "ds \<noteq> []"
    using assms(1) by (auto simp: digits_def list_all_iff)
  have "takeWhile is_digit (ds @ r) = ds" "dropWhile is_digit (ds @ r) = r"
    using all takeWhile_stop [of r is_digit] assms(2)
    by (simp_all add: takeWhile_append2 dropWhile_append2)
  with ne show ?thesis by (simp add: match_digits_def)
qed

lemma match_digits_None: "s = [] \<or> \<not> is_digit (hd s) \<Longrightarrow> match_digits s = None"
  using takeWhile_stop [of s is_digit] by (simp add: match_digits_def)

lemma not_digit_lits [simp]:
  "\<not> is_digit hyphen" "\<not> is_digit 46" "\<not> is_digit 30058"
  by (simp_all add: is_digit_def hyphen_def)

lemma match_numbered_Some:
  assumes "match_numbered f = Some i"
  shows "f = i @ dot_md \<and> id_form i"
proof -
  from assms obtain n r where nr: "match_digits f = Some (n, r)"
    by (auto simp: match_numbered_def split: option.splits)
  from match_digits_Some [OF nr] have f: "f = n @ r" and n: "digits n" by simp_all
  show ?thesis
  proof (cases "r = dot_md")
    case True
    with assms nr have "i = n" by (simp add: match_numbered_def)
    with f True n show ?thesis
      by (simp add: id_form_def split_str_no_sep digits_no_hyphen)
  next
    case False
    with assms nr obtain r' m where r: "r = hyphen # r'" and m: "match_digits r' = Some (m, dot_md)"
      and i: "i = n @ [hyphen] @ m"
      by (auto simp: match_numbered_def split: list.splits if_splits option.splits)
    from match_digits_Some [OF m] have r': "r' = m @ dot_md" and dm: "digits m" by simp_all
    have "split_str hyphen i = [n, m]"
      using n dm by (simp add: i split_str_append split_str_no_sep digits_no_hyphen)
    with f r r' i n dm show ?thesis by (simp add: id_form_def)
  qed
qed

lemma extra_no_hyphen: "hyphen \<notin> set extra_prefix"
  by (simp add: extra_prefix_def hyphen_def)

lemma match_extra_Some:
  assumes "match_extra f = Some i"
  shows "f = i @ dot_md \<and> id_form i"
proof -
  from assms have p: "prefix (extra_prefix @ [hyphen]) f"
    by (auto simp: match_extra_def split: if_splits)
  then obtain t where f: "f = (extra_prefix @ [hyphen]) @ t" by (auto simp: prefix_def)
  have d4: "drop 4 f = t" by (simp add: f extra_prefix_def)
  from assms p d4 obtain m where m: "match_digits t = Some (m, dot_md)"
    and i: "i = extra_prefix @ [hyphen] @ m"
    by (auto simp: match_extra_def split: option.splits if_splits)
  from match_digits_Some [OF m] have t: "t = m @ dot_md" and dm: "digits m" by simp_all
  have "split_str hyphen i = [extra_prefix, m]"
    using dm by (simp add: i split_str_append split_str_no_sep digits_no_hyphen extra_no_hyphen)
  with f t i dm show ?thesis by (simp add: id_form_def)
qed

lemma extractEpisodeId_Some:
  "extractEpisodeId f = Some i \<Longrightarrow> f = i @ dot_md \<and> id_form i"
  by (auto simp: extractEpisodeId_def split: option.splits
      dest: match_numbered_Some match_extra_Some)

lemma hd_dot_md: "hd dot_md = 46" "dot_md \<noteq> []" "length dot_md = 3"
  by (simp_all add: dot_md_def)

lemma extractEpisodeId_complete:
  assumes "id_form i"
  shows "extractEpisodeId (i @ dot_md) = Some i"
proof -
  have stop: "dot_md = [] \<or> \<not> is_digit (hd dot_md)" by (simp add: dot_md_def)
  consider (one) a where "split_str hyphen i = [a]" "digits a"
    | (two) a b where "split_str hyphen i = [a, b]" "digits a" "digits b"
    | (extra) b where "split_str hyphen i = [extra_prefix, b]" "digits b" "\<not> digits extra_prefix"
    using assms by (auto simp: id_form_def split: list.splits)
  then show ?thesis
  proof cases
    case one
    then have "i = a" using split_str_single by blast
    with one show ?thesis
      by (simp add: extractEpisodeId_def match_numbered_def match_digits_append [OF _ stop])
  next
    case two
    from split_str_cons [OF two(1)] obtain t where "i = a @ hyphen # t" "split_str hyphen t = [b]"
      by blast
    then have i: "i = a @ hyphen # b" using split_str_single by blast
    have "match_digits ((a @ hyphen # b) @ dot_md) = Some (a, hyphen # b @ dot_md)"
      using match_digits_append [OF two(2), of "hyphen # b @ dot_md"] by simp
    moreover have "hyphen # b @ dot_md \<noteq> dot_md" by simp
    ultimately show ?thesis
      by (simp add: i extractEpisodeId_def match_numbered_def
          match_digits_append [OF two(3) stop])
  next
    case extra
    from split_str_cons [OF extra(1)] obtain t where
      "i = extra_prefix @ hyphen # t" "split_str hyphen t = [b]"
      by blast
    then have i: "i = extra_prefix @ hyphen # b" using split_str_single by blast
    have "match_digits (i @ dot_md) = None"
      by (rule match_digits_None) (simp add: i extra_prefix_def)
    then have "match_numbered (i @ dot_md) = None" by (simp add: match_numbered_def)
    moreover have "match_extra (i @ dot_md) = Some i"
      using match_digits_append [OF extra(2) stop]
      by (simp add: match_extra_def i) (simp add: extra_prefix_def)
    ultimately show ?thesis by (simp add: extractEpisodeId_def)
  qed
qed

lemma extractEpisodeId_iff:
  "extractEpisodeId f = Some i \<longleftrightarrow> f = i @ dot_md \<and> id_form i"
  using extractEpisodeId_Some extractEpisodeId_complete by blast

lemma extractEpisodeId_pattern: "extractEpisodeId f \<noteq> None \<longleftrightarrow> id_pattern f"
proof
  assume "extractEpisodeId f \<noteq> None"
  then obtain i where "extractEpisodeId f = Some i" by blast
  then have "f = i @ dot_md" "id_form i" using extractEpisodeId_Some by blast+
  then show "id_pattern f" by (simp add: id_pattern_def endsWith_def hd_dot_md suffix_def)
next
  assume "id_pattern f"
  then obtain t where "f = t @ dot_md" and "id_form (take (length f - 3) f)"
    by (auto simp: id_pattern_def endsWith_def suffix_def)
  then have "id_form t" by (simp add: hd_dot_md)
  then show "extractEpisodeId f \<noteq> None"
    using extractEpisodeId_complete \<open>f = t @ dot_md\<close> by simp
qed


section \<open>The first pass never fails\<close>

lemma generateTitle_null: "extractEpisodeId f = None \<Longrightarrow> generateTitle f c = Inl TypeError"
  by (simp add: generateTitle_def)

lemma generateTitle_ok: "extractEpisodeId f = Some i \<Longrightarrow> \<exists>t. generateTitle f c = Inr t"
  by (simp add: generateTitle_def split: option.splits)

lemma build_episode_None: "build_episode (f, c) = None \<longleftrightarrow> extractEpisodeId f = None"
proof (cases "extractEpisodeId f")
  case None
  then show ?thesis by (simp add: build_episode_def)
next
  case (Some i)
  from generateTitle_ok [OF Some] obtain t where "generateTitle f c = Inr t" by blast
  with Some show ?thesis by (simp add: build_episode_def)
qed

lemma build_episode_fields:
  "build_episode (f, c) = Some e \<Longrightarrow> filename e = f \<and> extractEpisodeId f = Some (id_ep e)"
  by (auto simp: build_episode_def parsed.defs episode.defs split: option.splits sum.splits)

lemma first_pass_eq: "first_pass files eps = Inr (eps @ List.map_filter build_episode files)"
proof (induction files arbitrary: eps)
  case Nil
  then show ?case by simp
next
  case (Cons fc files)
  obtain f c where fc: "fc = (f, c)" by (cases fc)
  show ?case
  proof (cases "extractEpisodeId f")
    case None
    then show ?thesis by (simp add: fc Cons.IH build_episode_def)
  next
    case (Some i)
    from generateTitle_ok [OF Some] obtain t where "generateTitle f c = Inr t" by blast
    with Some show ?thesis by (simp add: fc Cons.IH build_episode_def)
  qed
qed

lemma readme_rejected: "extractEpisodeId readme_md = None"
  by (simp add: extractEpisodeId_def match_numbered_def match_extra_def match_digits_def
      readme_md_def is_digit_def extra_prefix_def hyphen_def)

lemma map_filter_drop:
  "(\<And>x. x \<in> set xs \<Longrightarrow> \<not> P x \<Longrightarrow> g x = None) \<Longrightarrow> List.map_filter g (filter P xs) = List.map_filter g xs"
  by (induction xs) (auto split: option.splits)

lemma processAllFiles_eq:
  "processAllFiles dir =
     Inr (sort_key order_key (second_pass (List.map_filter build_episode dir)))"
proof -
  have "List.map_filter build_episode (filter (\<lambda>(f, _). endsWith f dot_md \<and> f \<noteq> readme_md) dir)
      = List.map_filter build_episode dir"
  proof (rule map_filter_drop)
    fix x :: "ustring \<times> ustring"
    assume "\<not> (case x of (f, _) \<Rightarrow> endsWith f dot_md \<and> f \<noteq> readme_md)"
    then have "\<not> endsWith (fst x) dot_md \<or> fst x = readme_md" by (cases x) auto
    then have "extractEpisodeId (fst x) = None"
    proof
      assume "\<not> endsWith (fst x) dot_md"
      then show ?thesis
        using extractEpisodeId_Some [of "fst x"] by (cases "extractEpisodeId (fst x)") (auto simp: endsWith_def suffix_def)
    next
      assume "fst x = readme_md" then show ?thesis by (simp add: readme_rejected)
    qed
    then show "build_episode x = None" by (simp add: build_episode_def)
  qed
  then show ?thesis by (simp add: processAllFiles_def first_pass_eq)
qed

lemma second_pass_fields:
  "map id_ep (second_pass eps) = map id_ep eps" "map filename (second_pass eps) = map filename eps"
  by (simp_all add: second_pass_def episode.defs indexed_episode.defs comp_def)


section \<open>Unique ids\<close>

lemma map_filter_build_mem:
  "e \<in> set (List.map_filter build_episode dir) \<Longrightarrow>
     \<exists>c. (filename e, c) \<in> set dir \<and> extractEpisodeId (filename e) = Some (id_ep e)"
proof (induction dir)
  case Nil
  then show ?case by simp
next
  case (Cons fc dir)
  obtain f c where fc: "fc = (f, c)" by (cases fc)
  from Cons show ?case
    using build_episode_fields [of f c]
    by (auto simp: fc split: option.splits)
qed

lemma map_filter_build_distinct:
  "distinct (map fst dir) \<Longrightarrow> distinct (map id_ep (List.map_filter build_episode dir))"
proof (induction dir)
  case Nil
  then show ?case by simp
next
  case (Cons fc dir)
  obtain f c where fc: "fc = (f, c)" by (cases fc)
  from Cons.prems have f: "f \<notin> fst ` set dir" and d: "distinct (map fst dir)"
    by (simp_all add: fc)
  show ?case
  proof (cases "build_episode (f, c)")
    case None
    then show ?thesis using Cons.IH [OF d] by (simp add: fc)
  next
    case (Some e)
    have "id_ep e \<notin> id_ep ` set (List.map_filter build_episode dir)"
    proof
      assume "id_ep e \<in> id_ep ` set (List.map_filter build_episode dir)"
      then obtain e' where e': "e' \<in> set (List.map_filter build_episode dir)" "id_ep e' = id_ep e"
        by auto
      from map_filter_build_mem [OF e'(1)] obtain c' where
        c': "(filename e', c') \<in> set dir" "extractEpisodeId (filename e') = Some (id_ep e')"
        by blast
      from build_episode_fields [OF Some] have "extractEpisodeId f = Some (id_ep e)" by simp
      with c'(2) e'(2) have "filename e' = f"
        using extractEpisodeId_Some by metis
      with c'(1) f show False by force
    qed
    with Some Cons.IH [OF d] show ?thesis by (simp add: fc)
  qed
qed

lemma distinct_map_sort_key: "distinct (map f (sort_key k xs)) = distinct (map f xs)"
  by (simp add: distinct_map)

lemmas id_eval = extractEpisodeId_def match_numbered_def match_extra_def match_digits_def
  is_digit_def extra_prefix_def hyphen_def dot_md_def

lemma name_ids: "extractEpisodeId name_1 = Some [49]" "extractEpisodeId name_2_1 = Some [50, 45, 49]"
  by (simp_all add: id_eval name_1_def name_2_1_def)

text \<open>Claim C8. Two distinct file names that the id resolver accepts resolve to different
  ids; hence, for a directory (whose file names are distinct), the ids of the built corpus
  are pairwise distinct.\<close>

theorem ids_unique:
  "(extractEpisodeId f = Some i \<and> extractEpisodeId g = Some j \<and> f \<noteq> g \<longrightarrow> i \<noteq> j) \<and>
   (distinct (map fst dir) \<longrightarrow>
      (\<exists>episodes. processAllFiles dir = Inr episodes \<and> distinct (map id_ep episodes)))"
proof (intro conjI impI)
  assume "extractEpisodeId f = Some i \<and> extractEpisodeId g = Some j \<and> f \<noteq> g"
  then show "i \<noteq> j" using extractEpisodeId_Some by blast
next
  assume "distinct (map fst dir)"
  then have "distinct (map id_ep (List.map_filter build_episode dir))"
    by (rule map_filter_build_distinct)
  then show "\<exists>episodes. processAllFiles dir = Inr episodes \<and> distinct (map id_ep episodes)"
    by (simp add: processAllFiles_eq distinct_map_sort_key second_pass_fields)
qed

text \<open>The files \<open>1.md\<close> and \<open>2-1.md\<close>, and a directory holding them and
  \<open>README.md\<close>.\<close>

theorem ids_unique_witness:
  "extractEpisodeId name_1 = Some [49] \<and> extractEpisodeId name_2_1 = Some [50, 45, 49] \<and>
   name_1 \<noteq> name_2_1 \<and> [49] \<noteq> [50, 45, 49 :: uchar] \<and>
   distinct (map fst [(name_1, []), (name_2_1, []), (readme_md, [])]) \<and>
   (\<exists>episodes. processAllFiles [(name_1, []), (name_2_1, []), (readme_md, [])] = Inr episodes \<and>
      distinct (map id_ep episodes))"
proof -
  have d: "distinct (map fst [(name_1, []), (name_2_1, []), (readme_md, [])])"
    by (simp add: name_1_def name_2_1_def readme_md_def)
  have n: "name_1 \<noteq> name_2_1" by (simp add: name_1_def name_2_1_def)
  show ?thesis
    using ids_unique [of name_1 "[49]" name_2_1 "[50, 45, 49]"
        "[(name_1, []), (name_2_1, []), (readme_md, [])]"] d n name_ids
    by simp
qed


section \<open>Excluded files and the guarded title fault\<close>

lemma notes_rejected: "extractEpisodeId notes_txt = None"
  by (simp add: id_eval notes_txt_def)

lemma corpus_filenames:
  assumes "processAllFiles dir = Inr episodes" "e \<in> set episodes"
  shows "id_pattern (filename e) \<and> (\<exists>c. (filename e, c) \<in> set dir)"
proof -
  from assms have "filename e \<in> set (map filename (second_pass (List.map_filter build_episode dir)))"
    by (auto simp: processAllFiles_eq)
  then obtain e' where e': "e' \<in> set (List.map_filter build_episode dir)" "filename e' = filename e"
    by (auto simp: second_pass_fields)
  from map_filter_build_mem [OF e'(1)] e'(2) show ?thesis
    using extractEpisodeId_pattern [of "filename e"] by auto
qed

text \<open>Claim C9. A file whose name does not match the id pattern is excluded without an
  error: the build returns a corpus, no record of the corpus has that file name, and the
  corpus is the one built from the directory without the file. \<open>README.md\<close>,
  \<open>notes.txt\<close> and every name without the markdown extension are such names.\<close>

theorem unmatched_files_excluded:
  "(\<not> id_pattern f \<longrightarrow>
      (\<exists>episodes. processAllFiles dir = Inr episodes \<and> f \<notin> set (map filename episodes) \<and>
         processAllFiles (filter (\<lambda>(g, c). g \<noteq> f) dir) = Inr episodes)) \<and>
   \<not> id_pattern readme_md \<and> \<not> id_pattern notes_txt \<and>
   (\<not> endsWith f dot_md \<longrightarrow> \<not> id_pattern f)"
proof (intro conjI impI)
  assume nf: "\<not> id_pattern f"
  then have none: "\<And>c. build_episode (f, c) = None"
    using extractEpisodeId_pattern [of f] by (simp add: build_episode_None)
  have "List.map_filter build_episode (filter (\<lambda>(g, c). g \<noteq> f) dir)
      = List.map_filter build_episode dir"
    by (rule map_filter_drop) (use none in auto)
  then have same: "processAllFiles (filter (\<lambda>(g, c). g \<noteq> f) dir) = processAllFiles dir"
    by (simp add: processAllFiles_eq)
  obtain episodes where eps: "processAllFiles dir = Inr episodes"
    by (simp add: processAllFiles_eq)
  have "f \<notin> set (map filename episodes)"
    using corpus_filenames [OF eps] nf by auto
  with eps same
  show "\<exists>episodes. processAllFiles dir = Inr episodes \<and> f \<notin> set (map filename episodes) \<and>
         processAllFiles (filter (\<lambda>(g, c). g \<noteq> f) dir) = Inr episodes"
    by simp
next
  show "\<not> id_pattern readme_md"
    using extractEpisodeId_pattern [of readme_md] readme_rejected by simp
next
  show "\<not> id_pattern notes_txt"
    using extractEpisodeId_pattern [of notes_txt] notes_rejected by simp
next
  assume "\<not> endsWith f dot_md"
  then show "\<not> id_pattern f" by (simp add: id_pattern_def)
qed

text \<open>A directory with \<open>1.md\<close>, \<open>README.md\<close> and \<open>notes.txt\<close>.\<close>

theorem unmatched_files_excluded_witness:
  "\<not> id_pattern readme_md \<and> \<not> endsWith notes_txt dot_md \<and>
   (\<exists>episodes. processAllFiles [(name_1, []), (readme_md, []), (notes_txt, [])] = Inr episodes \<and>
      readme_md \<notin> set (map filename episodes) \<and>
      processAllFiles (filter (\<lambda>(g, c). g \<noteq> readme_md)
        [(name_1, []), (readme_md, []), (notes_txt, [])]) = Inr episodes) \<and>
   \<not> id_pattern notes_txt"
proof -
  have e: "\<not> endsWith notes_txt dot_md"
    by (simp add: endsWith_def notes_txt_def dot_md_def suffix_to_prefix)
  show ?thesis
    using unmatched_files_excluded [of readme_md "[(name_1, []), (readme_md, []), (notes_txt, [])]"]
      unmatched_files_excluded [of notes_txt "[]"] e
    by blast
qed

text \<open>Claim C10. \<open>generateTitle\<close> on a file name with no id throws a TypeError, and
  returns a title on every file name with an id; the build never reaches the fault: the
  first pass, on any list of files, and \<open>processAllFiles\<close>, on any directory, return
  normally.\<close>

theorem generateTitle_fault_unreachable:
  "(extractEpisodeId fname = None \<longrightarrow> generateTitle fname body = Inl TypeError) \<and>
   (extractEpisodeId fname \<noteq> None \<longrightarrow> (\<exists>t. generateTitle fname body = Inr t)) \<and>
   (\<exists>episodes. first_pass files acc = Inr episodes) \<and>
   (\<exists>episodes. processAllFiles dir = Inr episodes)"
  using generateTitle_null [of fname body] generateTitle_ok [of fname _ body]
  by (auto simp: first_pass_eq processAllFiles_eq)

text \<open>\<open>README.md\<close> has no id, \<open>1.md\<close> has one.\<close>

theorem generateTitle_fault_unreachable_witness:
  "extractEpisodeId readme_md = None \<and> generateTitle readme_md [] = Inl TypeError \<and>
   extractEpisodeId name_1 \<noteq> None \<and> (\<exists>t. generateTitle name_1 [] = Inr t)"
  using generateTitle_fault_unreachable [of readme_md "[]"]
    generateTitle_fault_unreachable [of name_1 "[]"] readme_rejected name_ids(1)
  by simp

section \<open>Rounding to binary64 is monotone\<close>

lemma rne_bounds: "\<lfloor>x\<rfloor> \<le> rne x \<and> rne x \<le> \<lfloor>x\<rfloor> + 1"
  by (simp add: rne_def Let_def)

lemma rne_mono: "x \<le> y \<Longrightarrow> rne x \<le> rne y"
proof -
  assume xy: "x \<le> y"
  then have fg: "\<lfloor>x\<rfloor> \<le> \<lfloor>y\<rfloor>" by (rule floor_mono)
  show ?thesis
  proof (cases "\<lfloor>x\<rfloor> = \<lfloor>y\<rfloor>")
    case True
    with xy show ?thesis by (auto simp: rne_def Let_def)
  next
    case False
    with fg have "\<lfloor>x\<rfloor> + 1 \<le> \<lfloor>y\<rfloor>" by simp
    with rne_bounds [of x] rne_bounds [of y] show ?thesis by linarith
  qed
qed

lemma rne_near: "\<bar>x - of_int m\<bar> < 1 / 2 \<Longrightarrow> rne x = m"
proof -
  assume a: "\<bar>x - of_int m\<bar> < 1 / 2"
  show ?thesis
  proof (cases "of_int m \<le> x")
    case True
    with a have "\<lfloor>x\<rfloor> = m" by (intro floor_unique) auto
    with a True show ?thesis by (simp add: rne_def Let_def)
  next
    case False
    with a have f: "\<lfloor>x\<rfloor> = m - 1" by (intro floor_unique) auto
    with a False have "1 / 2 < x - of_int (m - 1)" by simp
    with f show ?thesis by (simp add: rne_def Let_def)
  qed
qed

lemma rne_of_int [simp]: "rne (of_int m) = m"
  by (rule rne_near) simp

lemma expo_bounds:
  assumes "0 < q"
  shows "2 powi expo q \<le> q \<and> q < 2 powi (expo q + 1)"
proof -
  obtain a b where ab: "quotient_of q = (a, b)" by (cases "quotient_of q")
  then have b: "0 < b" and q: "q = of_int a / of_int b"
    using quotient_of_denom_pos quotient_of_div by blast+
  with assms have a: "0 < a" by (simp add: zero_less_divide_iff)
  define la lb where "la = bitlen a" and "lb = bitlen b"
  have la: "1 \<le> la" and lb: "1 \<le> lb"
    using a b bitlen_eq_zero_iff [of a] bitlen_eq_zero_iff [of b] bitlen_nonneg [of a] bitlen_nonneg [of b]
    by (auto simp: la_def lb_def)
  have pw: "\<And>k. 0 \<le> k \<Longrightarrow> (of_int (2 ^ nat k) :: rat) = 2 powi k"
    by (simp add: power_int_def)
  have A: "2 powi (la - 1) \<le> (of_int a :: rat)" "(of_int a :: rat) < 2 powi la"
  proof -
    from bitlen_bounds [OF a] have "2 ^ nat (la - 1) \<le> a" "a < 2 ^ nat la"
      by (simp_all add: la_def)
    then have "(of_int (2 ^ nat (la - 1)) :: rat) \<le> of_int a" "(of_int a :: rat) < of_int (2 ^ nat la)"
      by (simp_all only: of_int_le_iff of_int_less_iff)
    then show "2 powi (la - 1) \<le> (of_int a :: rat)" "(of_int a :: rat) < 2 powi la"
      using la by (simp_all only: pw)
  qed
  have B: "2 powi (lb - 1) \<le> (of_int b :: rat)" "(of_int b :: rat) < 2 powi lb"
  proof -
    from bitlen_bounds [OF b] have "2 ^ nat (lb - 1) \<le> b" "b < 2 ^ nat lb"
      by (simp_all add: lb_def)
    then have "(of_int (2 ^ nat (lb - 1)) :: rat) \<le> of_int b" "(of_int b :: rat) < of_int (2 ^ nat lb)"
      by (simp_all only: of_int_le_iff of_int_less_iff)
    then show "2 powi (lb - 1) \<le> (of_int b :: rat)" "(of_int b :: rat) < 2 powi lb"
      using lb by (simp_all only: pw)
  qed
  have bpos: "(0::rat) < of_int b" using b by simp
  have up: "q < 2 powi (la - lb + 1)"
  proof -
    have "of_int a < (2::rat) powi la" by (rule A(2))
    also have "\<dots> = 2 powi (la - lb + 1) * 2 powi (lb - 1)"
      by (simp add: power_int_add [symmetric])
    also have "\<dots> \<le> 2 powi (la - lb + 1) * of_int b"
      using B(1) by (intro mult_left_mono) simp_all
    finally show ?thesis using bpos by (simp add: q pos_divide_less_eq)
  qed
  have lo: "2 powi (la - lb - 1) \<le> q"
  proof -
    have "2 powi (la - lb - 1) * of_int b \<le> (2::rat) powi (la - lb - 1) * 2 powi lb"
      using B(2) by (intro mult_left_mono) simp_all
    also have "\<dots> = 2 powi (la - 1)" by (simp add: power_int_add [symmetric])
    also have "\<dots> \<le> of_int a" by (rule A(1))
    finally show ?thesis using bpos by (simp add: q pos_le_divide_eq)
  qed
  show ?thesis
  proof (cases "2 powi (la - lb) \<le> q")
    case True
    then have "expo q = la - lb" by (simp add: expo_def ab la_def lb_def)
    with True up show ?thesis by simp
  next
    case False
    then have "expo q = la - lb - 1" by (simp add: expo_def ab la_def lb_def)
    with False lo show ?thesis by simp
  qed
qed

lemma expo_unique:
  assumes "0 < q" "2 powi e \<le> q" "q < 2 powi (e + 1)"
  shows "expo q = e"
proof -
  from expo_bounds [OF assms(1)] have b: "2 powi expo q \<le> q" "q < 2 powi (expo q + 1)" by simp_all
  have "(2::rat) powi e < 2 powi (expo q + 1)" using assms(2) b(2) by (rule le_less_trans)
  then have 1: "e < expo q + 1"
    using power_int_increasing [of "expo q + 1" e "2::rat"] by (cases "e < expo q + 1") auto
  have "(2::rat) powi expo q < 2 powi (e + 1)" using b(1) assms(3) by (rule le_less_trans)
  then have 2: "expo q < e + 1"
    using power_int_increasing [of "e + 1" "expo q" "2::rat"] by (cases "expo q < e + 1") auto
  from 1 2 show ?thesis by simp
qed


lemma fl_pos: "0 < q \<Longrightarrow> fl q = of_int (rne (q / 2 powi (expo q - 52))) * 2 powi (expo q - 52)"
  by (simp add: fl_def Let_def)

lemma fl_zero [simp]: "fl 0 = 0"
  by (simp add: fl_def)

lemma fl_eval:
  assumes "0 < q" "2 powi (e + 52) \<le> q" "q < 2 powi (e + 53)"
    and "\<bar>q / 2 powi e - of_int m\<bar> < 1 / 2"
  shows "fl q = of_int m * 2 powi e"
proof -
  have "expo q = e + 52"
    using assms(1-3) by (intro expo_unique) (simp_all add: add.assoc)
  then show ?thesis using assms(1,4) by (simp add: fl_pos rne_near)
qed

lemma fl_range:
  assumes "0 < q"
  shows "2 powi expo q \<le> fl q \<and> fl q \<le> 2 powi (expo q + 1)"
proof -
  define u :: rat where "u = 2 powi (expo q - 52)"
  define lo hi :: int where "lo = 2 ^ 52" and "hi = 2 ^ 53"
  have u: "0 < u" by (simp add: u_def)
  have hi: "of_int hi * u = 2 powi (expo q + 1)" and lo: "of_int lo * u = 2 powi expo q"
    unfolding u_def lo_def hi_def by (simp_all add: power_int_diff power_int_add)
  from expo_bounds [OF assms] have "of_int lo * u \<le> q" "q < of_int hi * u"
    by (simp_all only: hi lo)
  then have "of_int lo \<le> q / u" "q / u \<le> of_int hi"
    using u by (simp_all add: pos_le_divide_eq pos_divide_le_eq)
  then have "lo \<le> rne (q / u)" "rne (q / u) \<le> hi"
    using rne_mono [of "of_int lo" "q / u"] rne_mono [of "q / u" "of_int hi"] by simp_all
  then have "(of_int lo :: rat) \<le> of_int (rne (q / u))" "(of_int (rne (q / u)) :: rat) \<le> of_int hi"
    by simp_all
  then have "of_int lo * u \<le> of_int (rne (q / u)) * u" "of_int (rne (q / u)) * u \<le> of_int hi * u"
    using u by (intro mult_right_mono; simp)+
  then show ?thesis
    unfolding hi lo by (simp add: fl_pos [OF assms] u_def [symmetric])
qed

lemma fl_nonneg: "0 \<le> q \<Longrightarrow> 0 \<le> fl q"
proof (cases "q = 0")
  case True
  then show ?thesis by simp
next
  case False
  assume "0 \<le> q"
  with False have q: "0 < q" by simp
  have "(0::rat) \<le> 2 powi expo q" by simp
  with fl_range [OF q] show ?thesis by linarith
qed

lemma fl_mono:
  assumes "0 \<le> x" "x \<le> y"
  shows "fl x \<le> fl y"
proof (cases "x = 0")
  case True
  with assms show ?thesis by (simp add: fl_nonneg)
next
  case False
  with assms have x: "0 < x" and y: "0 < y" by simp_all
  from expo_bounds [OF x] expo_bounds [OF y] assms(2)
  have "(2::rat) powi expo x < 2 powi (expo y + 1)" by linarith
  then have le: "expo x \<le> expo y"
    using power_int_increasing [of "expo y + 1" "expo x" "2::rat"] by (cases "expo x \<le> expo y") auto
  show ?thesis
  proof (cases "expo x = expo y")
    case True
    define u :: rat where "u = 2 powi (expo y - 52)"
    have u: "0 < u" by (simp add: u_def)
    have "x / u \<le> y / u" using assms(2) u by (simp add: divide_right_mono)
    then have "(of_int (rne (x / u)) :: rat) \<le> of_int (rne (y / u))"
      using rne_mono by simp
    then have "of_int (rne (x / u)) * u \<le> of_int (rne (y / u)) * u"
      using u by (intro mult_right_mono) simp_all
    then show ?thesis by (simp add: fl_pos [OF x] fl_pos [OF y] True u_def)
  next
    case False
    with le have "expo x + 1 \<le> expo y" by simp
    then have "(2::rat) powi (expo x + 1) \<le> 2 powi expo y"
      by (intro power_int_increasing) simp_all
    with fl_range [OF x] fl_range [OF y] show ?thesis by linarith
  qed
qed

lemma lit_0_6_eval: "lit_0_6 = 5404319552844595 / 2 ^ 53"
  unfolding lit_0_6_def by (subst fl_eval [of _ "-53" 5404319552844595]) simp_all

lemma lit_0_4_eval: "lit_0_4 = 7205759403792794 / 2 ^ 54"
  unfolding lit_0_4_def by (subst fl_eval [of _ "-54" 7205759403792794]) simp_all

lemma lit_0_3_eval: "lit_0_3 = 5404319552844595 / 2 ^ 54"
  unfolding lit_0_3_def by (subst fl_eval [of _ "-54" 5404319552844595]) simp_all

lemma fl_one: "fl 1 = 1"
  by (subst fl_eval [of _ "-52" "2 ^ 52"]) simp_all

lemma fl_int_exact:
  assumes "0 \<le> n" "n < 2 ^ 53"
  shows "fl (of_int n) = of_int n"
proof (cases "n = 0")
  case True
  then show ?thesis by simp
next
  case False
  with assms have n: "0 < n" by simp
  define q :: rat where "q = of_int n"
  have q: "0 < q" using n by (simp add: q_def)
  define e where "e = expo q"
  from expo_bounds [OF q] have b: "2 powi e \<le> q" "q < 2 powi (e + 1)" by (simp_all add: e_def)
  have e0: "0 \<le> e"
  proof (rule ccontr)
    assume "\<not> 0 \<le> e"
    then have "e + 1 \<le> 0" by simp
    then have "(2::rat) powi (e + 1) \<le> 2 powi 0" by (intro power_int_increasing) simp_all
    with b(2) have "q < 1" by simp
    then show False using n by (simp add: q_def)
  qed
  have e52: "e \<le> 52"
  proof (rule ccontr)
    assume "\<not> e \<le> 52"
    then have "53 \<le> e" by simp
    then have "(2::rat) powi 53 \<le> 2 powi e" by (intro power_int_increasing) simp_all
    with b(1) have "(2::rat) ^ 53 \<le> q" by simp
    moreover have "q < 2 ^ 53"
      using assms(2) unfolding q_def by (metis of_int_less_iff of_int_numeral of_int_power)
    ultimately show False by simp
  qed
  define k where "k = nat (52 - e)"
  have u: "(2::rat) powi (e - 52) = 1 / 2 ^ k"
    using e52 by (simp add: k_def power_int_def field_simps)
  have "q / 2 powi (e - 52) = of_int (n * 2 ^ k)" by (simp add: u q_def)
  then have "rne (q / 2 powi (e - 52)) = n * 2 ^ k" by (simp only: rne_of_int)
  then have "fl q = of_int (n * 2 ^ k) * (1 / 2 ^ k)"
    by (simp add: fl_pos [OF q] e_def [symmetric] u)
  then show ?thesis by (simp add: q_def)
qed

lemma rne_error: "\<bar>of_int (rne x) - x\<bar> \<le> 1 / 2"
proof -
  define r where "r = x - of_int \<lfloor>x\<rfloor>"
  have r: "0 \<le> r" "r < 1" unfolding r_def by linarith+
  have x: "x = of_int \<lfloor>x\<rfloor> + r" by (simp add: r_def)
  consider "r < 1 / 2" | "1 / 2 < r" | "r = 1 / 2" by linarith
  then show ?thesis
  proof cases
    case 1
    then have "rne x = \<lfloor>x\<rfloor>" by (simp add: rne_def Let_def r_def)
    then have "of_int (rne x) - x = - r" by (simp add: r_def)
    with 1 r show ?thesis by simp
  next
    case 2
    then have "rne x = \<lfloor>x\<rfloor> + 1" by (simp add: rne_def Let_def r_def)
    then have "of_int (rne x) - x = 1 - r" by (simp add: r_def)
    with 2 r show ?thesis by simp
  next
    case 3
    then have "rne x = \<lfloor>x\<rfloor> \<or> rne x = \<lfloor>x\<rfloor> + 1" by (simp add: rne_def Let_def r_def)
    then have "of_int (rne x) - x = - r \<or> of_int (rne x) - x = 1 - r" by (auto simp: r_def)
    with 3 show ?thesis by auto
  qed
qed

lemma fl_error:
  assumes "0 \<le> q"
  shows "\<bar>fl q - q\<bar> \<le> q / 2 ^ 53"
proof (cases "q = 0")
  case True
  then show ?thesis by simp
next
  case False
  with assms have q: "0 < q" by simp
  define u :: rat where "u = 2 powi (expo q - 52)"
  have u: "0 < u" by (simp add: u_def)
  have ue: "u * 2 ^ 52 = 2 powi expo q" by (simp add: u_def power_int_diff)
  have "fl q - q = (of_int (rne (q / u)) - q / u) * u"
    using u by (simp add: fl_pos [OF q] u_def [symmetric] algebra_simps)
  then have "\<bar>fl q - q\<bar> = \<bar>of_int (rne (q / u)) - q / u\<bar> * u"
    using u by (simp add: abs_mult)
  also have "\<dots> \<le> 1 / 2 * u"
    using rne_error [of "q / u"] u by (intro mult_right_mono) simp_all
  also have "\<dots> = (u * 2 ^ 52) / 2 ^ 53" by simp
  also have "\<dots> \<le> q / 2 ^ 53"
    unfolding ue using expo_bounds [OF q] by (simp add: divide_right_mono)
  finally show ?thesis .
qed

section \<open>The similarity score\<close>

lemma fold_set_add: "set (fold set_add xs acc) = set acc \<union> set xs \<and> (distinct acc \<longrightarrow> distinct (fold set_add xs acc))"
  by (induction xs arbitrary: acc) (auto simp: set_add_def)

lemma set_from_set [simp]: "set (set_from xs) = set xs"
  by (simp add: set_from_def fold_set_add)

lemma set_from_distinct [simp]: "distinct (set_from xs)"
  using fold_set_add [of xs "[]"] by (simp add: set_from_def)

lemma set_from_size: "length (set_from xs) = card (set xs)"
  using distinct_card [OF set_from_distinct, of xs] by simp

lemma shared_size: "length (filter (\<lambda>k. k \<in> set (set_from ys)) (set_from xs)) = card (set xs \<inter> set ys)"
proof -
  have "distinct (filter (\<lambda>k. k \<in> set ys) (set_from xs))" by simp
  then have "length (filter (\<lambda>k. k \<in> set ys) (set_from xs)) = card (set (filter (\<lambda>k. k \<in> set ys) (set_from xs)))"
    by (rule distinct_card [symmetric])
  also have "set (filter (\<lambda>k. k \<in> set ys) (set_from xs)) = set xs \<inter> set ys" by auto
  finally show ?thesis by simp
qed

lemma score_dice:
  "(if 0 < length (set_from xs) + length (set_from ys)
    then num_div (of_nat (length (filter (\<lambda>k. k \<in> set (set_from ys)) (set_from xs)) * 2))
           (of_nat (length (set_from xs) + length (set_from ys)))
    else 0) = dice (set xs) (set ys)"
proof (cases "card (set xs) + card (set ys) = 0")
  case True
  then show ?thesis by (simp only: shared_size set_from_size dice_def) simp
next
  case False
  then have "0 < card (set xs) + card (set ys)" by arith
  with False show ?thesis
    by (simp only: shared_size set_from_size dice_def mult.commute if_True if_False)
qed

lemma calculateSimilarity_dice:
  "calculateSimilarity a b =
     num_add (num_mul (dice (set (keywords_ep a)) (set (keywords_ep b))) lit_0_6)
             (num_mul (dice (set (themes a)) (set (themes b))) lit_0_4)"
  by (simp only: calculateSimilarity_def Let_def score_dice)

lemma dice_range: "0 \<le> dice (set xs) (set ys) \<and> dice (set xs) (set ys) \<le> 1"
proof (cases "card (set xs) + card (set ys) = 0")
  case True
  then show ?thesis by (simp add: dice_def)
next
  case False
  have "card (set xs \<inter> set ys) \<le> card (set xs)" "card (set xs \<inter> set ys) \<le> card (set ys)"
    by (simp_all add: card_mono)
  then have "2 * card (set xs \<inter> set ys) \<le> card (set xs) + card (set ys)" by simp
  then have "(of_nat (2 * card (set xs \<inter> set ys)) :: rat) \<le> of_nat (card (set xs) + card (set ys))"
    by (simp only: of_nat_le_iff)
  moreover from False have "0 < card (set xs) + card (set ys)" by arith
  then have "(0::rat) < of_nat (card (set xs) + card (set ys))"
    by (simp only: of_nat_0_less_iff)
  ultimately have q: "(of_nat (2 * card (set xs \<inter> set ys)) :: rat) / of_nat (card (set xs) + card (set ys)) \<le> 1"
    by (simp only: pos_divide_le_eq mult_1)
  have q0: "(0::rat) \<le> of_nat (2 * card (set xs \<inter> set ys)) / of_nat (card (set xs) + card (set ys))"
    by simp
  from fl_mono [OF q0 q] fl_nonneg [OF q0] False show ?thesis
    by (simp add: dice_def num_div_def fl_one)
qed

lemma fl_lit_0_6: "fl lit_0_6 = lit_0_6"
  unfolding lit_0_6_eval by (subst fl_eval [of _ "-53" 5404319552844595]) simp_all

lemma fl_lit_0_4: "fl lit_0_4 = lit_0_4"
  unfolding lit_0_4_eval by (subst fl_eval [of _ "-54" 7205759403792794]) simp_all

lemma lit_sum: "lit_0_6 + lit_0_4 = 1"
  by (simp add: lit_0_6_eval lit_0_4_eval)

lemma lit_pos: "0 \<le> lit_0_6" "0 \<le> lit_0_4"
  by (simp_all add: lit_0_6_eval lit_0_4_eval)

lemma num_mul_lit_range:
  assumes "0 \<le> d" "d \<le> 1" "0 \<le> c" "fl c = c"
  shows "0 \<le> num_mul d c \<and> num_mul d c \<le> c"
proof -
  have "0 \<le> d * c" "d * c \<le> c"
    using assms by (simp_all add: mult_left_le_one_le)
  from fl_nonneg [OF this(1)] fl_mono [OF this] assms(4) show ?thesis
    by (simp add: num_mul_def)
qed

lemma calculateSimilarity_range: "0 \<le> calculateSimilarity a b \<and> calculateSimilarity a b \<le> 1"
proof -
  define k where "k = num_mul (dice (set (keywords_ep a)) (set (keywords_ep b))) lit_0_6"
  define t where "t = num_mul (dice (set (themes a)) (set (themes b))) lit_0_4"
  have k: "0 \<le> k" "k \<le> lit_0_6" and t: "0 \<le> t" "t \<le> lit_0_4"
    unfolding k_def t_def
    using num_mul_lit_range [OF _ _ lit_pos(1) fl_lit_0_6] num_mul_lit_range [OF _ _ lit_pos(2) fl_lit_0_4]
      dice_range by blast+
  then have "0 \<le> k + t" "k + t \<le> 1" using lit_sum by simp_all
  from fl_nonneg [OF this(1)] fl_mono [OF this] show ?thesis
    by (simp add: calculateSimilarity_dice k_def t_def num_add_def fl_one)
qed

lemma fl_100: "fl 100 = 100"
  by (subst fl_eval [of _ "-46" "100 * 2 ^ 46"]) simp_all

lemma threshold_times_100: "fl (lit_0_3 * 100) = 30"
  unfolding lit_0_3_eval by (subst fl_eval [of _ "-48" "30 * 2 ^ 48"]) simp_all

lemma percentage_range:
  assumes "lit_0_3 \<le> s" "s \<le> 1"
  shows "30 \<le> Math_round (num_mul s 100) \<and> Math_round (num_mul s 100) \<le> 100"
proof -
  have p: "0 \<le> lit_0_3 * 100" by (simp add: lit_0_3_eval)
  have "lit_0_3 * 100 \<le> s * 100" using assms(1) by simp
  from fl_mono [OF p this] have lo: "30 \<le> num_mul s 100"
    by (simp add: num_mul_def threshold_times_100)
  have "0 \<le> s" using assms(1) by (simp add: lit_0_3_eval)
  then have "0 \<le> s * 100" "s * 100 \<le> 100" using assms(2) by simp_all
  from fl_mono [OF this] have hi: "num_mul s 100 \<le> 100"
    by (simp add: num_mul_def fl_100)
  from lo hi show ?thesis
    unfolding Math_round_def by (simp add: le_floor_iff floor_le_iff)
qed

lemma dice_exact_range: "0 \<le> dice_exact (set xs) (set ys) \<and> dice_exact (set xs) (set ys) \<le> 1"
proof (cases "card (set xs) + card (set ys) = 0")
  case True
  then show ?thesis by (simp add: dice_exact_def)
next
  case False
  have "card (set xs \<inter> set ys) \<le> card (set xs)" "card (set xs \<inter> set ys) \<le> card (set ys)"
    by (simp_all add: card_mono)
  then have "2 * card (set xs \<inter> set ys) \<le> card (set xs) + card (set ys)" by simp
  then have "(of_nat (2 * card (set xs \<inter> set ys)) :: rat) \<le> of_nat (card (set xs) + card (set ys))"
    by (simp only: of_nat_le_iff)
  moreover from False have "0 < card (set xs) + card (set ys)" by arith
  then have "(0::rat) < of_nat (card (set xs) + card (set ys))"
    by (simp only: of_nat_0_less_iff)
  ultimately have "(of_nat (2 * card (set xs \<inter> set ys)) :: rat) / of_nat (card (set xs) + card (set ys)) \<le> 1"
    by (simp only: pos_divide_le_eq mult_1)
  with False show ?thesis by (simp add: dice_exact_def)
qed

lemma dice_fl: "dice A B = fl (dice_exact A B)"
  by (simp add: dice_def dice_exact_def num_div_def)

lemma weighted_error:
  assumes K: "0 \<le> K" "K \<le> 1" and c0: "0 \<le> c0" "c0 \<le> 1"
  shows "\<bar>num_mul (fl K) (fl c0) - c0 * K\<bar> \<le> 3 / 2 ^ 53"
proof -
  define k c where "k = fl K" and "c = fl c0"
  have k: "0 \<le> k" "k \<le> 1" using fl_nonneg [OF K(1)] fl_mono [OF K] by (simp_all add: k_def fl_one)
  have c: "0 \<le> c" "c \<le> 1" using fl_nonneg [OF c0(1)] fl_mono [OF c0] by (simp_all add: c_def fl_one)
  have "\<bar>k - K\<bar> \<le> K / 2 ^ 53" unfolding k_def using K(1) by (rule fl_error)
  also have "\<dots> \<le> 1 / 2 ^ 53" using K(2) by (simp add: divide_right_mono)
  finally have ek: "\<bar>k - K\<bar> \<le> 1 / 2 ^ 53" .
  have "\<bar>c - c0\<bar> \<le> c0 / 2 ^ 53" unfolding c_def using c0(1) by (rule fl_error)
  also have "\<dots> \<le> 1 / 2 ^ 53" using c0(2) by (simp add: divide_right_mono)
  finally have ec: "\<bar>c - c0\<bar> \<le> 1 / 2 ^ 53" .
  have kc: "0 \<le> k * c" "k * c \<le> 1" using k c by (simp_all add: mult_le_one)
  have "\<bar>fl (k * c) - k * c\<bar> \<le> k * c / 2 ^ 53" using kc(1) by (rule fl_error)
  also have "\<dots> \<le> 1 / 2 ^ 53" using kc(2) by (simp add: divide_right_mono)
  finally have ea: "\<bar>fl (k * c) - k * c\<bar> \<le> 1 / 2 ^ 53" .
  have "\<bar>(k - K) * c\<bar> \<le> 1 / 2 ^ 53 * 1"
    unfolding abs_mult using ek c by (intro mult_mono) simp_all
  moreover have "\<bar>K * (c - c0)\<bar> \<le> 1 * (1 / 2 ^ 53)"
    unfolding abs_mult using ec K by (intro mult_mono) simp_all
  moreover have "k * c - c0 * K = (k - K) * c + K * (c - c0)" by (simp add: algebra_simps)
  ultimately have "\<bar>k * c - c0 * K\<bar> \<le> 2 / 2 ^ 53" by linarith
  with ea have "\<bar>fl (k * c) - c0 * K\<bar> \<le> 3 / 2 ^ 53" by linarith
  then show ?thesis by (simp add: num_mul_def k_def c_def)
qed

lemma similarity_error:
  "\<bar>calculateSimilarity a b
     - (6 / 10 * dice_exact (set (keywords_ep a)) (set (keywords_ep b))
        + 4 / 10 * dice_exact (set (themes a)) (set (themes b)))\<bar> \<le> 1 / 2 ^ 50"
proof -
  define K where "K = dice_exact (set (keywords_ep a)) (set (keywords_ep b))"
  define T where "T = dice_exact (set (themes a)) (set (themes b))"
  define x where "x = num_mul (fl K) lit_0_6"
  define y where "y = num_mul (fl T) lit_0_4"
  have K: "0 \<le> K" "K \<le> 1" and T: "0 \<le> T" "T \<le> 1"
    using dice_exact_range [of "keywords_ep a" "keywords_ep b"]
      dice_exact_range [of "themes a" "themes b"]
    by (simp_all add: K_def T_def)
  have ex: "\<bar>x - 6 / 10 * K\<bar> \<le> 3 / 2 ^ 53"
    unfolding x_def lit_0_6_def using weighted_error [OF K, of "6 / 10"] by simp
  have ey: "\<bar>y - 4 / 10 * T\<bar> \<le> 3 / 2 ^ 53"
    unfolding y_def lit_0_4_def using weighted_error [OF T, of "4 / 10"] by simp
  have fk: "0 \<le> fl K" "fl K \<le> 1" and ft: "0 \<le> fl T" "fl T \<le> 1"
    using fl_nonneg [OF K(1)] fl_mono [OF K] fl_nonneg [OF T(1)] fl_mono [OF T]
    by (simp_all add: fl_one)
  have xr: "0 \<le> x" "x \<le> lit_0_6"
    unfolding x_def using num_mul_lit_range [OF fk lit_pos(1) fl_lit_0_6] by simp_all
  have yr: "0 \<le> y" "y \<le> lit_0_4"
    unfolding y_def using num_mul_lit_range [OF ft lit_pos(2) fl_lit_0_4] by simp_all
  have s: "0 \<le> x + y" "x + y \<le> 1" using xr yr lit_sum by simp_all
  have "\<bar>fl (x + y) - (x + y)\<bar> \<le> (x + y) / 2 ^ 53" using s(1) by (rule fl_error)
  also have "\<dots> \<le> 1 / 2 ^ 53" using s(2) by (simp add: divide_right_mono)
  finally have es: "\<bar>fl (x + y) - (x + y)\<bar> \<le> 1 / 2 ^ 53" .
  have "calculateSimilarity a b = fl (x + y)"
    by (simp add: calculateSimilarity_dice dice_fl num_add_def x_def y_def K_def T_def)
  moreover have "\<bar>fl (x + y) - (6 / 10 * K + 4 / 10 * T)\<bar> \<le> 7 / 2 ^ 53"
    using es ex ey by linarith
  moreover have "(7::rat) / 2 ^ 53 \<le> 1 / 2 ^ 50" by simp
  ultimately show ?thesis unfolding K_def T_def by linarith
qed

section \<open>The worked example of the similarity score\<close>

lemma fl_two_thirds: "fl (2 / 3) = 6004799503160661 / 2 ^ 53"
  by (subst fl_eval [of _ "-53" 6004799503160661]) simp_all

lemma example_keyword_part: "num_mul (6004799503160661 / 2 ^ 53) lit_0_6 = 7205759403792793 / 2 ^ 54"
  unfolding num_mul_def lit_0_6_eval by (subst fl_eval [of _ "-54" 7205759403792793]) simp_all

lemma example_theme_part: "num_mul (6004799503160661 / 2 ^ 53) lit_0_4 = 4803839602528529 / 2 ^ 54"
  unfolding num_mul_def lit_0_4_eval by (subst fl_eval [of _ "-54" 4803839602528529]) simp_all

lemma example_sum:
  "num_add (7205759403792793 / 2 ^ 54) (4803839602528529 / 2 ^ 54) = 6004799503160661 / 2 ^ 53"
  unfolding num_add_def by (subst fl_eval [of _ "-53" 6004799503160661]) simp_all

lemma example_percent: "num_mul (6004799503160661 / 2 ^ 53) 100 = 4691249611844266 / 2 ^ 46"
  unfolding num_mul_def by (subst fl_eval [of _ "-46" 4691249611844266]) simp_all

lemma example_dice:
  "dice (set (keywords_ep episode_A)) (set (keywords_ep episode_B)) = 6004799503160661 / 2 ^ 53"
  "dice (set (themes episode_A)) (set (themes episode_B)) = 6004799503160661 / 2 ^ 53"
  by (simp_all add: dice_def episode_A_def episode_B_def term_PT_def term_research_def
      term_education_def term_science_def num_div_def fl_two_thirds)

lemma example_score: "calculateSimilarity episode_A episode_B = 6004799503160661 / 2 ^ 53"
  by (simp only: calculateSimilarity_dice example_dice example_keyword_part example_theme_part
      example_sum)

text \<open>Claim C1. The similarity score is the keyword Dice coefficient times 0.6 plus the theme
  Dice coefficient times 0.4, each Dice coefficient being twice the number of shared
  elements over the sum of the two set sizes, and 0 when that sum is 0. The arithmetic is
  that of JavaScript numbers, and the score is within \<open>2^(-50)\<close> of the same formula in
  exact arithmetic. For the two episodes of the worked example both coefficients and the
  score are the number \<open>2/3\<close> evaluates to, within \<open>2^(-53)\<close> of the fraction, and the
  percentage rounds to 67.\<close>

theorem similarity_is_weighted_dice:
  "calculateSimilarity a b =
     num_add (num_mul (dice (set (keywords_ep a)) (set (keywords_ep b))) lit_0_6)
             (num_mul (dice (set (themes a)) (set (themes b))) lit_0_4) \<and>
   \<bar>calculateSimilarity a b
      - (6 / 10 * dice_exact (set (keywords_ep a)) (set (keywords_ep b))
         + 4 / 10 * dice_exact (set (themes a)) (set (themes b)))\<bar> \<le> 1 / 2 ^ 50 \<and>
   dice (set (keywords_ep episode_A)) (set (keywords_ep episode_B)) = num_div 2 3 \<and>
   dice (set (themes episode_A)) (set (themes episode_B)) = num_div 2 3 \<and>
   calculateSimilarity episode_A episode_B = num_div 2 3 \<and>
   \<bar>calculateSimilarity episode_A episode_B - 2 / 3\<bar> < 1 / 2 ^ 53 \<and>
   Math_round (num_mul (calculateSimilarity episode_A episode_B) 100) = 67"
proof (intro conjI)
  show "calculateSimilarity a b =
     num_add (num_mul (dice (set (keywords_ep a)) (set (keywords_ep b))) lit_0_6)
             (num_mul (dice (set (themes a)) (set (themes b))) lit_0_4)"
    by (rule calculateSimilarity_dice)
  show "\<bar>calculateSimilarity a b
      - (6 / 10 * dice_exact (set (keywords_ep a)) (set (keywords_ep b))
         + 4 / 10 * dice_exact (set (themes a)) (set (themes b)))\<bar> \<le> 1 / 2 ^ 50"
    by (rule similarity_error)
  show "dice (set (keywords_ep episode_A)) (set (keywords_ep episode_B)) = num_div 2 3"
    "dice (set (themes episode_A)) (set (themes episode_B)) = num_div 2 3"
    "calculateSimilarity episode_A episode_B = num_div 2 3"
    by (simp_all only: example_dice example_score num_div_def fl_two_thirds)
  show "\<bar>calculateSimilarity episode_A episode_B - 2 / 3\<bar> < 1 / 2 ^ 53"
    unfolding example_score by simp
  show "Math_round (num_mul (calculateSimilarity episode_A episode_B) 100) = 67"
    unfolding example_score example_percent by (simp add: Math_round_def floor_eq_iff)
qed

section \<open>Related episodes\<close>

text \<open>The example corpus, by evaluation.\<close>

lemma ex_corpus_built: "processAllFiles ex_dir = Inr ex_corpus"
  by code_simp

lemma related_loop_eq:
  "related_loop cur th all acc = acc @ map (related_entry cur) (filter (related_to cur th) all)"
  by (induction all arbitrary: acc) (simp_all add: related_entry_def related_to_def Let_def)

lemma findRelatedEpisodes_set:
  "set (findRelatedEpisodes cur all th) \<subseteq> related_entry cur ` {e \<in> set all. related_to cur th e}"
proof -
  have "set (findRelatedEpisodes cur all th) \<subseteq> set (sort_key (\<lambda>r. - similarity r) (related_loop cur th all []))"
    unfolding findRelatedEpisodes_def by (rule set_take_subset)
  then show ?thesis by (auto simp: related_loop_eq)
qed

lemma findRelatedEpisodes_length: "length (findRelatedEpisodes cur all th) \<le> 5"
  by (simp add: findRelatedEpisodes_def)

lemma findRelatedEpisodes_sorted:
  "sorted_wrt (\<lambda>r s. similarity s \<le> similarity r) (findRelatedEpisodes cur all th)"
proof -
  have "sorted (map (\<lambda>r. - similarity r) (sort_key (\<lambda>r. - similarity r) (related_loop cur th all [])))"
    by (rule sorted_sort_key)
  then have "sorted_wrt (\<lambda>r s. similarity s \<le> similarity r) (sort_key (\<lambda>r. - similarity r) (related_loop cur th all []))"
    by (simp add: sorted_map)
  then show ?thesis unfolding findRelatedEpisodes_def by (rule sorted_wrt_take)
qed

lemma findRelatedEpisodes_entry:
  assumes "r \<in> set (findRelatedEpisodes cur all lit_0_3)"
  shows "id_rel r \<noteq> id_ep cur \<and> 30 \<le> similarity r \<and> similarity r \<le> 100"
proof -
  from assms findRelatedEpisodes_set obtain e where
    e: "related_to cur lit_0_3 e" "r = related_entry cur e" by blast
  from e(1) have "lit_0_3 \<le> calculateSimilarity cur e" by (simp add: related_to_def)
  from percentage_range [OF this] calculateSimilarity_range [of cur e] e show ?thesis
    by (simp add: related_entry_def related_to_def)
qed

lemma corpus_related:
  assumes "processAllFiles dir = Inr episodes" "e \<in> set episodes"
  shows "\<exists>cur all. id_ep cur = id_ep e \<and> relatedEpisodes e = findRelatedEpisodes cur all lit_0_3"
proof -
  from assms have "e \<in> set (second_pass (List.map_filter build_episode dir))"
    by (auto simp: processAllFiles_eq)
  then obtain cur where "cur \<in> set (List.map_filter build_episode dir)"
    and "e = episode.extend cur (indexed_episode.fields
           (findRelatedEpisodes cur (List.map_filter build_episode dir) lit_0_3))"
    by (auto simp: second_pass_def)
  then have "id_ep cur = id_ep e \<and>
      relatedEpisodes e = findRelatedEpisodes cur (List.map_filter build_episode dir) lit_0_3"
    by (simp add: episode.defs indexed_episode.defs)
  then show ?thesis by blast
qed

text \<open>Claim C3. In the built corpus every list of related episodes has at most 5 entries,
  every similarity in it is an integer from 30 to 100 (so in the range 0 to 100), and the
  entries are in descending order of similarity.\<close>

theorem related_bounded:
  "processAllFiles dir = Inr episodes \<Longrightarrow> e \<in> set episodes \<Longrightarrow>
     length (relatedEpisodes e) \<le> 5 \<and>
     (\<forall>r \<in> set (relatedEpisodes e). 0 \<le> similarity r \<and> similarity r \<le> 100 \<and> 30 \<le> similarity r) \<and>
     sorted_wrt (\<lambda>r s. similarity s \<le> similarity r) (relatedEpisodes e)"
proof -
  assume "processAllFiles dir = Inr episodes" "e \<in> set episodes"
  from corpus_related [OF this] obtain cur all where
    rel: "relatedEpisodes e = findRelatedEpisodes cur all lit_0_3" by blast
  show ?thesis
    unfolding rel
    using findRelatedEpisodes_length [of cur all lit_0_3]
      findRelatedEpisodes_sorted [of cur all lit_0_3]
      findRelatedEpisodes_entry [of _ cur all]
    by fastforce
qed

text \<open>The corpus built from \<open>2.md\<close>, \<open>README.md\<close> and \<open>1.md\<close>: each of the two episodes
  has the other as its one related episode, at 60 percent.\<close>

theorem related_bounded_witness:
  "processAllFiles ex_dir = Inr ex_corpus \<and> hd ex_corpus \<in> set ex_corpus \<and>
   relatedEpisodes (hd ex_corpus)
     = [\<lparr>id_rel = [50], title_rel = episode_label @ [50], similarity = 60\<rparr>] \<and>
   hd (relatedEpisodes (hd ex_corpus)) \<in> set (relatedEpisodes (hd ex_corpus)) \<and>
   length (relatedEpisodes (hd ex_corpus)) \<le> 5 \<and>
   0 \<le> similarity (hd (relatedEpisodes (hd ex_corpus))) \<and>
   similarity (hd (relatedEpisodes (hd ex_corpus))) \<le> 100 \<and>
   30 \<le> similarity (hd (relatedEpisodes (hd ex_corpus))) \<and>
   sorted_wrt (\<lambda>r s. similarity s \<le> similarity r) (relatedEpisodes (hd ex_corpus))"
proof -
  have m: "hd ex_corpus \<in> set ex_corpus" by (simp add: ex_corpus_def)
  have r: "relatedEpisodes (hd ex_corpus)
     = [\<lparr>id_rel = [50], title_rel = episode_label @ [50], similarity = 60\<rparr>]"
    by (simp add: ex_corpus_def)
  then have h: "hd (relatedEpisodes (hd ex_corpus)) \<in> set (relatedEpisodes (hd ex_corpus))"
    by simp
  from related_bounded [OF ex_corpus_built m] ex_corpus_built m r h show ?thesis by blast
qed

text \<open>Claim C6. The list of related episodes that \<open>findRelatedEpisodes\<close> returns for an
  episode never holds that episode's id, whatever the list of episodes and the threshold;
  so in the built corpus no episode lists its own id among its related episodes.\<close>

theorem no_self_relation:
  "id_ep cur \<notin> set (map id_rel (findRelatedEpisodes cur all threshold)) \<and>
   (processAllFiles dir = Inr episodes \<and> e \<in> set episodes \<longrightarrow>
      id_ep e \<notin> set (map id_rel (relatedEpisodes e)))"
proof -
  have f: "id_ep c \<notin> set (map id_rel (findRelatedEpisodes c a t))" for c a t
    using findRelatedEpisodes_set [of c a t] by (auto simp: related_entry_def related_to_def)
  show ?thesis
  proof (intro conjI impI)
    show "id_ep cur \<notin> set (map id_rel (findRelatedEpisodes cur all threshold))" by (rule f)
  next
    assume "processAllFiles dir = Inr episodes \<and> e \<in> set episodes"
    then obtain c a where "id_ep c = id_ep e" "relatedEpisodes e = findRelatedEpisodes c a lit_0_3"
      using corpus_related by blast
    with f [of c a lit_0_3] show "id_ep e \<notin> set (map id_rel (relatedEpisodes e))" by simp
  qed
qed

text \<open>In the example corpus, episode 2 lists episode 1 only.\<close>

theorem no_self_relation_witness:
  "processAllFiles ex_dir = Inr ex_corpus \<and> last ex_corpus \<in> set ex_corpus \<and>
   id_ep (last ex_corpus) = [50] \<and>
   map id_rel (relatedEpisodes (last ex_corpus)) = [[49]] \<and>
   id_ep (last ex_corpus) \<notin> set (map id_rel (relatedEpisodes (last ex_corpus)))"
proof -
  have m: "last ex_corpus \<in> set ex_corpus" by (simp add: ex_corpus_def)
  have r: "id_ep (last ex_corpus) = [50]" "map id_rel (relatedEpisodes (last ex_corpus)) = [[49]]"
    by (simp_all add: ex_corpus_def)
  from no_self_relation [of _ _ _ ex_dir ex_corpus "last ex_corpus"] ex_corpus_built m r
  show ?thesis by blast
qed

section \<open>The final order\<close>

lemma digit_value_range: "is_digit c \<Longrightarrow> 0 \<le> digit_value c \<and> digit_value c \<le> 9"
  by (simp add: is_digit_def digit_value_def word_le_def)

lemma foldl_decimal_nonneg:
  "0 \<le> v \<Longrightarrow> list_all is_digit ds \<Longrightarrow> 0 \<le> foldl (\<lambda>v c. 10 * v + digit_value c) v ds"
proof (induction ds arbitrary: v)
  case Nil
  then show ?case by simp
next
  case (Cons c ds)
  from Cons.prems digit_value_range [of c] have "0 \<le> 10 * v + digit_value c" by simp
  with Cons show ?case by simp
qed

lemma decimal_nonneg: "digits ds \<Longrightarrow> 0 \<le> decimal ds"
  by (simp add: decimal_def digits_def foldl_decimal_nonneg)

lemma parseInt_digits: "digits ds \<Longrightarrow> parseInt ds = Some (fl (of_int (decimal ds)))"
proof -
  assume d: "digits ds"
  then have t: "takeWhile is_digit ds = ds" by (simp add: digits_def list_all_iff)
  from d obtain c cs where "ds = c # cs" by (cases ds) (simp_all add: digits_def)
  then show ?thesis unfolding parseInt_def t by simp
qed

lemma digits_not_extra: "digits a \<Longrightarrow> \<not> startsWith (a @ r) extra_prefix"
  by (cases a) (auto simp: digits_def startsWith_def extra_prefix_def is_digit_def)

lemma num_add_zero: "num_add (num_mul (fl x) 10) 0 = num_add (num_mul (fl x) 10) (fl (of_int 0))"
  by simp

lemma getOrder_plain:
  assumes "digits a"
  shows "getOrder a = Some (numbered_key (decimal a) 0)"
proof (cases "a = id_zero")
  case True
  then show ?thesis
    by (simp add: getOrder_def numbered_key_def id_zero_def decimal_def digit_value_def
        num_add_def num_mul_def)
next
  case False
  have s: "split_str hyphen a = [a]" using assms by (simp add: split_str_no_sep digits_no_hyphen)
  have e: "\<not> startsWith a extra_prefix" using digits_not_extra [OF assms, of "[]"] by simp
  show ?thesis
    using False e by (simp add: getOrder_def s parseInt_digits [OF assms] numbered_key_def)
qed

lemma getOrder_sub:
  assumes "digits a" "digits b"
  shows "getOrder (a @ hyphen # b) = Some (numbered_key (decimal a) (decimal b))"
proof -
  have s: "split_str hyphen (a @ hyphen # b) = [a, b]"
    using assms by (simp add: split_str_append split_str_no_sep digits_no_hyphen)
  have z: "a @ hyphen # b \<noteq> id_zero"
    using assms(1) by (cases a) (simp_all add: id_zero_def digits_def)
  have e: "\<not> startsWith (a @ hyphen # b) extra_prefix" by (rule digits_not_extra [OF assms(1)])
  have b: "b \<noteq> []" using assms(2) by (simp add: digits_def)
  show ?thesis
    using z e b unfolding getOrder_def s
    by (simp add: parseInt_digits [OF assms(1)] parseInt_digits [OF assms(2)] numbered_key_def)
qed

lemma getOrder_extra:
  assumes "digits m"
  shows "getOrder (extra_prefix @ hyphen # m) = Some (extra_key (decimal m))"
proof -
  have s: "split_str hyphen (extra_prefix @ hyphen # m) = [extra_prefix, m]"
    using assms by (simp add: split_str_append split_str_no_sep digits_no_hyphen extra_no_hyphen)
  have z: "extra_prefix @ hyphen # m \<noteq> id_zero" by (simp add: id_zero_def extra_prefix_def)
  have e: "startsWith (extra_prefix @ hyphen # m) extra_prefix" by (simp add: startsWith_def)
  show ?thesis
    using z e unfolding getOrder_def s
    by (simp add: parseInt_digits [OF assms] extra_key_def)
qed

lemma numbered_key_exact:
  assumes "0 \<le> n" "0 \<le> m" "n * 10 + m < 2 ^ 53"
  shows "numbered_key n m = of_int (n * 10 + m)"
proof -
  have n: "n < 2 ^ 53" "n * 10 < 2 ^ 53" and m: "m < 2 ^ 53" using assms by simp_all
  have "fl (of_int n * 10) = fl (of_int (n * 10))" by simp
  also have "\<dots> = of_int (n * 10)" using assms(1) n(2) by (intro fl_int_exact) simp_all
  finally have 1: "fl (of_int n * 10) = of_int (n * 10)" .
  have "fl (of_int (n * 10) + of_int m) = fl (of_int (n * 10 + m))" by simp
  also have "\<dots> = of_int (n * 10 + m)" using assms by (intro fl_int_exact) simp_all
  finally have 2: "fl (of_int (n * 10) + of_int m) = of_int (n * 10 + m)" .
  show ?thesis
    unfolding numbered_key_def num_add_def num_mul_def
    by (simp only: fl_int_exact [OF assms(1) n(1)] fl_int_exact [OF assms(2) m] 1 2)
qed

lemma extra_key_exact:
  assumes "0 \<le> m" "1000 + m < 2 ^ 53"
  shows "extra_key m = of_int (1000 + m)"
proof -
  have m: "m < 2 ^ 53" using assms by simp
  have "fl (1000 + of_int m) = fl (of_int (1000 + m))" by simp
  also have "\<dots> = of_int (1000 + m)" using assms by (intro fl_int_exact) simp_all
  finally have 2: "fl (1000 + of_int m) = of_int (1000 + m)" .
  show ?thesis
    unfolding extra_key_def num_add_def
    by (simp only: fl_int_exact [OF assms(1) m] 2)
qed

lemma extra_key_large: "0 \<le> m \<Longrightarrow> 1000 \<le> extra_key m"
proof -
  assume "0 \<le> m"
  then have "(0::rat) \<le> of_int m" by simp
  from fl_nonneg [OF this] have "(1000::rat) \<le> 1000 + fl (of_int m)" by simp
  from fl_mono [OF _ this] have "fl 1000 \<le> extra_key m" by (simp add: extra_key_def num_add_def)
  moreover have "fl 1000 = 1000" using fl_int_exact [of 1000] by simp
  ultimately show ?thesis by simp
qed

lemma id_form_cases:
  assumes "id_form i"
  obtains (plain) "digits i"
  | (sub) a b where "i = a @ hyphen # b" "digits a" "digits b"
  | (extra) m where "i = extra_prefix @ hyphen # m" "digits m"
proof -
  consider (one) a where "split_str hyphen i = [a]" "digits a"
    | (two) a b where "split_str hyphen i = [a, b]" "digits a \<or> a = extra_prefix" "digits b"
    using assms by (auto simp: id_form_def split: list.splits)
  then show ?thesis
  proof cases
    case one
    then have "i = a" using split_str_single by blast
    with one plain show ?thesis by simp
  next
    case two
    from split_str_cons [OF two(1)] obtain t where "i = a @ hyphen # t" "split_str hyphen t = [b]"
      by blast
    then have "i = a @ hyphen # b" using split_str_single by fastforce
    with two sub extra show ?thesis by blast
  qed
qed

lemma getOrder_defined: "id_form i \<Longrightarrow> getOrder i \<noteq> None"
  by (erule id_form_cases) (simp_all add: getOrder_plain getOrder_sub getOrder_extra)

lemma extra_id_key:
  assumes "id_form i" "startsWith i extra_prefix"
  shows "1000 \<le> id_key i"
  using assms(1)
proof (cases rule: id_form_cases)
  case plain
  with assms(2) digits_not_extra [of i "[]"] show ?thesis by simp
next
  case (sub a b)
  with assms(2) digits_not_extra [of a "hyphen # b"] show ?thesis by simp
next
  case (extra m)
  then show ?thesis
    by (simp add: id_key_def getOrder_extra extra_key_large decimal_nonneg)
qed


lemma cx_corpus_built: "processAllFiles cx_dir = Inr cx_corpus"
  by code_simp

lemma map_insort_key: "map g (insort_key (\<lambda>x. k (g x)) x xs) = insort_key k (g x) (map g xs)"
  by (induction xs) simp_all

lemma map_sort_key: "map g (sort_key (\<lambda>x. k (g x)) xs) = sort_key k (map g xs)"
  by (induction xs) (simp_all add: map_insort_key)

lemma order_key_id_key: "order_key = (\<lambda>e. id_key (id_ep e))"
  by (rule ext) (simp add: order_key_def id_key_def)

lemma map_filter_build_ids:
  "map id_ep (List.map_filter build_episode dir) = List.map_filter extractEpisodeId (map fst dir)"
proof (induction dir)
  case Nil
  then show ?case by simp
next
  case (Cons fc dir)
  obtain f c where fc: "fc = (f, c)" by (cases fc)
  show ?case
  proof (cases "build_episode (f, c)")
    case None
    moreover from None have "extractEpisodeId f = None" by (simp add: build_episode_None)
    ultimately show ?thesis using Cons.IH by (simp add: fc)
  next
    case (Some e)
    with build_episode_fields [OF Some] Cons.IH show ?thesis by (simp add: fc)
  qed
qed

lemma corpus_ids:
  "map_sum id (map id_ep) (processAllFiles dir)
     = Inr (sort_key id_key (List.map_filter extractEpisodeId (map fst dir)))"
  unfolding processAllFiles_eq order_key_id_key
  by (simp add: map_sort_key second_pass_fields map_filter_build_ids)

lemma corpus_id_form:
  assumes "processAllFiles dir = Inr episodes" "e \<in> set episodes"
  shows "id_form (id_ep e)"
proof -
  from assms have "id_ep e \<in> set (map id_ep (second_pass (List.map_filter build_episode dir)))"
    by (auto simp: processAllFiles_eq)
  then obtain e' where e': "e' \<in> set (List.map_filter build_episode dir)" "id_ep e' = id_ep e"
    by (auto simp: second_pass_fields)
  from map_filter_build_mem [OF e'(1)] e'(2) extractEpisodeId_Some show ?thesis by metis
qed

lemma corpus_sorted_keys: "processAllFiles dir = Inr episodes \<Longrightarrow> sorted (map order_key episodes)"
  by (auto simp: processAllFiles_eq)

lemma after_extra:
  assumes "processAllFiles dir = Inr episodes" "i < j" "j < length episodes"
    and "startsWith (id_ep (episodes ! i)) extra_prefix"
  shows "1000 \<le> order_key (episodes ! j)"
proof -
  have "episodes ! i \<in> set episodes" using assms(2,3) by simp
  from corpus_id_form [OF assms(1) this] assms(4) have "1000 \<le> id_key (id_ep (episodes ! i))"
    by (rule extra_id_key)
  moreover have "order_key (episodes ! i) \<le> order_key (episodes ! j)"
    using sorted_nth_mono [OF corpus_sorted_keys [OF assms(1)], of i j] assms(2,3) by simp
  ultimately show ?thesis by (simp add: order_key_id_key)
qed

lemma example_ids:
  "extractEpisodeId name_0 = Some [48]" "extractEpisodeId name_2 = Some [50]"
  "extractEpisodeId name_extra_1 = Some id_extra_1" "extractEpisodeId name_101 = Some id_101"
  by (simp_all add: id_eval name_0_def name_2_def name_extra_1_def id_extra_1_def name_101_def id_101_def)

lemma example_digits: "digits [48]" "digits [49]" "digits [50]" "digits [49, 48, 49]"
  by (simp_all add: digits_def is_digit_def)

lemma example_decimal: "decimal [48] = 0" "decimal [49] = 1" "decimal [50] = 2" "decimal [49, 48, 49] = 101"
  by (simp_all add: decimal_def digit_value_def)

lemma example_keys:
  "id_key [48] = 0" "id_key [49] = 10" "id_key [50] = 20" "id_key [50, 45, 49] = 21"
  "id_key id_extra_1 = 1001" "id_key id_101 = 1010"
proof -
  show "id_key [48] = 0" "id_key [49] = 10" "id_key [50] = 20" "id_key id_101 = 1010"
    by (simp_all add: id_key_def id_101_def getOrder_plain example_digits example_decimal numbered_key_exact)
  show "id_key [50, 45, 49] = 21"
    using getOrder_sub [of "[50]" "[49]"]
    by (simp add: id_key_def hyphen_def example_digits example_decimal numbered_key_exact)
  show "id_key id_extra_1 = 1001"
    using getOrder_extra [of "[49]"]
    by (simp add: id_key_def id_extra_1_def extra_prefix_def hyphen_def example_digits example_decimal extra_key_exact)
qed

lemma example_order:
  "map_sum id (map id_ep)
     (processAllFiles [(name_0, c0), (name_1, c1), (name_2_1, c2), (name_2, c3), (name_extra_1, c4)])
   = Inr [[48], [49], [50], [50, 45, 49], id_extra_1]"
  by (simp add: corpus_ids example_ids name_ids example_keys)

lemma corpus_ids_stable:
  assumes "processAllFiles dir = Inr episodes"
  shows "filter (\<lambda>i. id_key i = k) (map id_ep episodes)
       = filter (\<lambda>i. id_key i = k) (List.map_filter extractEpisodeId (map fst dir))"
proof -
  from corpus_ids [of dir] assms
  have "map id_ep episodes = sort_key id_key (List.map_filter extractEpisodeId (map fst dir))"
    by simp
  then show ?thesis by (simp only: sort_key_stable)
qed

lemma name_0_0_id: "extractEpisodeId name_0_0 = Some [48, 45, 48]"
  by (simp add: id_eval name_0_0_def)

lemma tie_keys: "id_key [48, 45, 48] = 0"
  using getOrder_sub [of "[48]" "[48]"]
  by (simp add: id_key_def hyphen_def example_digits example_decimal numbered_key_exact)

lemma tie_order:
  "map_sum id (map id_ep) (processAllFiles [(name_0_0, c0), (name_0, c1)]) = Inr [[48, 45, 48], [48]]"
  "map_sum id (map id_ep) (processAllFiles [(name_0, c1), (name_0_0, c0)]) = Inr [[48], [48, 45, 48]]"
  by (simp_all add: corpus_ids example_ids name_0_0_id example_keys tie_keys)

text \<open>Claim C2, as the code has it. The final sequence is the stable sort of the records by
  the key of the id: the keys are in ascending order, and the ids that share a key come out
  in the order of the directory. The key of \<open>0\<close> is 0; the key of an integer, or of an
  integer, a hyphen and an integer, is the integer part times 10 plus the suffix (0 when
  absent); the key of an extra-episode id is 1000 plus its suffix; all in the arithmetic of
  JavaScript numbers, which is exact while the key is below \<open>2^53\<close>. Whatever follows an
  extra-episode record has a key of at least 1000, so the extra-episode records come after
  every numbered record whose key is below 1000. Files with the ids 0, 1, 2-1, 2 and
  extra-1, whatever their contents, come out in the order 0, 1, 2, 2-1, extra-1; the files
  \<open>0-0.md\<close> and \<open>0.md\<close>, whose keys are both 0, come out in the order they are listed
  in.\<close>

theorem corpus_order:
  "(processAllFiles dir = Inr episodes \<longrightarrow>
      sorted (map order_key episodes) \<and>
      filter (\<lambda>i. id_key i = key) (map id_ep episodes)
        = filter (\<lambda>i. id_key i = key) (List.map_filter extractEpisodeId (map fst dir))) \<and>
   (processAllFiles dir = Inr episodes \<and> i < j \<and> j < length episodes \<and>
      startsWith (id_ep (episodes ! i)) extra_prefix \<longrightarrow> 1000 \<le> order_key (episodes ! j)) \<and>
   order_key e = id_key (id_ep e) \<and>
   getOrder id_zero = Some 0 \<and>
   (digits a \<longrightarrow> getOrder a = Some (numbered_key (decimal a) 0)) \<and>
   (digits a \<and> digits b \<longrightarrow>
      getOrder (a @ hyphen # b) = Some (numbered_key (decimal a) (decimal b))) \<and>
   (digits m \<longrightarrow> getOrder (extra_prefix @ hyphen # m) = Some (extra_key (decimal m))) \<and>
   (0 \<le> n \<and> 0 \<le> k \<and> n * 10 + k < 2 ^ 53 \<longrightarrow> numbered_key n k = of_int (n * 10 + k)) \<and>
   (0 \<le> k \<and> 1000 + k < 2 ^ 53 \<longrightarrow> extra_key k = of_int (1000 + k)) \<and>
   map_sum id (map id_ep)
     (processAllFiles
        [(name_0, c0), (name_1, c1), (name_2_1, c2), (name_2, c3), (name_extra_1, c4)])
   = Inr [[48], [49], [50], [50, 45, 49], id_extra_1] \<and>
   map_sum id (map id_ep) (processAllFiles [(name_0_0, c0), (name_0, c1)])
   = Inr [[48, 45, 48], [48]] \<and>
   map_sum id (map id_ep) (processAllFiles [(name_0, c1), (name_0_0, c0)])
   = Inr [[48], [48, 45, 48]]"
proof (intro conjI impI)
  show "getOrder id_zero = Some 0" by (simp add: getOrder_def)
  show "order_key e = id_key (id_ep e)" by (simp add: order_key_id_key)
qed (auto simp: corpus_sorted_keys after_extra getOrder_plain getOrder_sub getOrder_extra
    numbered_key_exact extra_key_exact example_order tie_order corpus_ids_stable)

text \<open>The directory with \<open>101.md\<close> and the first extra episode, whose corpus has the extra
  episode first; the ids \<open>2\<close>, \<open>2-1\<close> and extra-1.\<close>

theorem corpus_order_witness:
  "processAllFiles cx_dir = Inr cx_corpus \<and> sorted (map order_key cx_corpus) \<and>
   filter (\<lambda>i. id_key i = 1001) (map id_ep cx_corpus) = [id_extra_1] \<and>
   filter (\<lambda>i. id_key i = 1001) (List.map_filter extractEpisodeId (map fst cx_dir)) = [id_extra_1] \<and>
   (0::nat) < 1 \<and> 1 < length cx_corpus \<and> startsWith (id_ep (cx_corpus ! 0)) extra_prefix \<and>
   1000 \<le> order_key (cx_corpus ! 1) \<and>
   digits [50] \<and> getOrder [50] = Some (numbered_key (decimal [50]) 0) \<and>
   digits [49] \<and> getOrder ([50] @ hyphen # [49]) = Some (numbered_key (decimal [50]) (decimal [49])) \<and>
   getOrder (extra_prefix @ hyphen # [49]) = Some (extra_key (decimal [49])) \<and>
   (0::int) \<le> 2 \<and> (0::int) \<le> 1 \<and> (2::int) * 10 + 1 < 2 ^ 53 \<and> numbered_key 2 1 = of_int (2 * 10 + 1) \<and>
   (1000::int) + 1 < 2 ^ 53 \<and> extra_key 1 = of_int (1000 + 1)"
proof -
  note t = corpus_order [where dir = cx_dir and episodes = cx_corpus and key = 1001 and i = 0
      and j = 1 and a = "[50]" and b = "[49]" and m = "[49]" and n = 2 and k = 1]
  have s: "startsWith (id_ep (cx_corpus ! 0)) extra_prefix" "1 < length cx_corpus"
    by (simp_all add: cx_corpus_def id_extra_1_def extra_prefix_def startsWith_def)
  have f: "filter (\<lambda>i. id_key i = 1001) (map id_ep cx_corpus) = [id_extra_1]"
    by (simp add: cx_corpus_def example_keys)
  from t cx_corpus_built have o: "sorted (map order_key cx_corpus)"
    and g: "filter (\<lambda>i. id_key i = 1001) (map id_ep cx_corpus)
        = filter (\<lambda>i. id_key i = 1001) (List.map_filter extractEpisodeId (map fst cx_dir))"
    by blast+
  have z: "(0::nat) < 1" by simp
  from t cx_corpus_built s z have x: "1000 \<le> order_key (cx_corpus ! 1)" by blast
  from t example_digits have k1: "getOrder [50] = Some (numbered_key (decimal [50]) 0)"
    and k2: "getOrder ([50] @ hyphen # [49]) = Some (numbered_key (decimal [50]) (decimal [49]))"
    and k3: "getOrder (extra_prefix @ hyphen # [49]) = Some (extra_key (decimal [49]))"
    by blast+
  have "(0::int) \<le> 2 \<and> (0::int) \<le> 1 \<and> (2::int) * 10 + 1 < 2 ^ 53" "(0::int) \<le> 1 \<and> (1000::int) + 1 < 2 ^ 53"
    by simp_all
  with t have e1: "numbered_key 2 1 = of_int (2 * 10 + 1)" and e2: "extra_key 1 = of_int (1000 + 1)"
    by blast+
  from cx_corpus_built o f g s x k1 k2 k3 e1 e2 example_digits show ?thesis by simp
qed

text \<open>The claim as stated fails: with \<open>101.md\<close> in the directory, the extra episode (key
  1001) comes before the numbered episode 101 (key 1010).\<close>

theorem extra_not_last_counterexample:
  "processAllFiles cx_dir = Inr cx_corpus \<and>
   map id_ep cx_corpus = [id_extra_1, id_101] \<and>
   extractEpisodeId name_101 = Some id_101 \<and> digits id_101 \<and>
   extractEpisodeId name_extra_1 = Some id_extra_1 \<and> startsWith id_extra_1 extra_prefix \<and>
   getOrder id_extra_1 = Some 1001 \<and> getOrder id_101 = Some 1010"
proof -
  have "getOrder id_101 = Some 1010"
    by (simp add: id_101_def getOrder_plain example_digits example_decimal numbered_key_exact)
  moreover have "getOrder id_extra_1 = Some 1001"
    using getOrder_extra [of "[49]"]
    by (simp add: id_extra_1_def extra_prefix_def hyphen_def example_digits example_decimal extra_key_exact)
  moreover have "startsWith id_extra_1 extra_prefix"
    by (simp add: id_extra_1_def extra_prefix_def startsWith_def)
  moreover have "map id_ep cx_corpus = [id_extra_1, id_101]" by (simp add: cx_corpus_def)
  ultimately show ?thesis
    using cx_corpus_built example_ids example_digits by (simp add: id_101_def)
qed

section \<open>The title\<close>

lemma trim_dropWhile: "trim (dropWhile is_space s) = trim s"
  by (simp add: trim_def)

lemma title_scan_find:
  "title_scan ls = map_option heading_text (List.find title_candidate ls)"
  by (induction ls)
    (simp_all add: title_candidate_def holds_summary_word_def heading_text_def strip_hash2_def
      startsWith_def trim_dropWhile)

lemma find_first:
  "list_all (\<lambda>p. \<not> P p) pre \<Longrightarrow> P l \<Longrightarrow> List.find P (pre @ l # rest) = Some l"
  by (induction pre) simp_all

lemma find_none: "list_all (\<lambda>p. \<not> P p) ls \<Longrightarrow> List.find P ls = None"
  by (induction ls) simp_all

lemma extra_suffix_digits:
  assumes "id_form (extra_prefix @ hyphen # m)"
  shows "digits m"
  using assms
proof (cases rule: id_form_cases)
  case plain
  then show ?thesis by (simp add: digits_def extra_prefix_def is_digit_def)
next
  case (sub a b)
  then show ?thesis
    by (cases a) (auto simp: digits_def extra_prefix_def is_digit_def)
next
  case (extra m')
  then show ?thesis by simp
qed

lemma second_part_extra: "digits m \<Longrightarrow> second_part_text (extra_prefix @ hyphen # m) = m"
  by (simp add: second_part_text_def split_str_append split_str_no_sep digits_no_hyphen extra_no_hyphen)

lemma extra_id_shape:
  assumes "id_form i" "startsWith i extra_prefix"
  shows "i = extra_prefix @ hyphen # drop 4 i"
  using assms(1)
proof (cases rule: id_form_cases)
  case plain
  with assms(2) digits_not_extra [of i "[]"] show ?thesis by simp
next
  case (sub a b)
  with assms(2) digits_not_extra [of a "hyphen # b"] show ?thesis by simp
next
  case (extra m)
  then show ?thesis by (simp add: extra_prefix_def)
qed

text \<open>Claim C4, as the code has it. For a file name the id resolver accepts, with id \<open>i\<close>,
  and any content: the title is the fixed title when \<open>i\<close> is \<open>0\<close>; the extra-episode
  label, a space and the numeric suffix when \<open>i\<close> has the extra prefix, which is then
  followed by a hyphen and that suffix. Otherwise the lines of the content are searched,
  untrimmed, for the first one that begins with \<open>##\<close> and holds the Summary word nowhere:
  when that line is a level-2 heading, the title is its text, the marker stripped and the
  rest trimmed; when there is no such line, the title is the episode label followed by
  \<open>i\<close>.\<close>

theorem title_derivation:
  "extractEpisodeId fname = Some i \<Longrightarrow>
     (i = id_zero \<longrightarrow> generateTitle fname body = Inr title_zero) \<and>
     (startsWith i extra_prefix \<longrightarrow> i = extra_prefix @ hyphen # drop 4 i) \<and>
     (i = extra_prefix @ hyphen # m \<longrightarrow> generateTitle fname body = Inr (extra_title_prefix @ m)) \<and>
     (i \<noteq> id_zero \<and> \<not> startsWith i extra_prefix \<and>
      split_str newline body = pre @ l # rest \<and>
      list_all (\<lambda>p. \<not> title_candidate p) pre \<and>
      level2_heading l \<and> \<not> holds_summary_word l \<longrightarrow>
        generateTitle fname body = Inr (heading_text l)) \<and>
     (i \<noteq> id_zero \<and> \<not> startsWith i extra_prefix \<and>
      list_all (\<lambda>p. \<not> title_candidate p) (split_str newline body) \<longrightarrow>
        generateTitle fname body = Inr (episode_label @ i))"
proof (intro conjI impI)
  assume a: "extractEpisodeId fname = Some i"
  then have form: "id_form i" using extractEpisodeId_Some by blast
  {
    assume "i = id_zero"
    with a show "generateTitle fname body = Inr title_zero" by (simp add: generateTitle_def)
  next
    assume "startsWith i extra_prefix"
    with form show "i = extra_prefix @ hyphen # drop 4 i" by (rule extra_id_shape)
  next
    assume i: "i = extra_prefix @ hyphen # m"
    with form have "digits m" by (simp add: extra_suffix_digits)
    then have "second_part_text i = m" by (simp add: i second_part_extra)
    moreover have "i \<noteq> id_zero" "startsWith i extra_prefix"
      by (simp_all add: i id_zero_def extra_prefix_def startsWith_def)
    ultimately show "generateTitle fname body = Inr (extra_title_prefix @ m)"
      using a by (simp add: generateTitle_def)
  next
    assume h: "i \<noteq> id_zero \<and> \<not> startsWith i extra_prefix \<and>
      split_str newline body = pre @ l # rest \<and>
      list_all (\<lambda>p. \<not> title_candidate p) pre \<and>
      level2_heading l \<and> \<not> holds_summary_word l"
    then have "title_candidate l" by (simp add: title_candidate_def level2_heading_def)
    with h have "List.find title_candidate (split_str newline body) = Some l"
      by (simp add: find_first)
    with a h show "generateTitle fname body = Inr (heading_text l)"
      by (simp add: generateTitle_def title_scan_find)
  next
    assume h: "i \<noteq> id_zero \<and> \<not> startsWith i extra_prefix \<and>
      list_all (\<lambda>p. \<not> title_candidate p) (split_str newline body)"
    then have "List.find title_candidate (split_str newline body) = None"
      by (simp add: find_none)
    with a h show "generateTitle fname body = Inr (episode_label @ i)"
      by (simp add: generateTitle_def title_scan_find)
  }
qed

lemmas title_eval = title_candidate_def holds_summary_word_def level2_heading_def
  is_summary_header_def startsWith_def hash2_def hash3_def summary_word_def summary_header_def
  newline_def heading_text_def trim_def is_space_def

lemma title_doc_split:
  "split_str newline title_doc
     = [summary_header, [62, 32, 97]] @ [35, 35, 32, 32, 84, 49, 32] # [[35, 35, 32, 84, 50]]"
  by (simp add: title_doc_def summary_header_def newline_def)

lemma title_doc_facts:
  "list_all (\<lambda>p. \<not> title_candidate p) [summary_header, [62, 32, 97]]"
  "level2_heading [35, 35, 32, 32, 84, 49, 32]"
  "\<not> holds_summary_word [35, 35, 32, 32, 84, 49, 32]"
  "heading_text [35, 35, 32, 32, 84, 49, 32] = [84, 49]"
  "list_all (\<lambda>p. \<not> title_candidate p) (split_str newline [])"
  by (simp_all add: title_eval)

text \<open>The files \<open>0.md\<close>, the first extra episode and \<open>1.md\<close>; the content has a Summary
  header, a quoted line, the heading \<open>T1\<close> between blanks and the heading \<open>T2\<close>.\<close>

theorem title_derivation_witness:
  "extractEpisodeId name_0 = Some id_zero \<and> generateTitle name_0 title_doc = Inr title_zero \<and>
   extractEpisodeId name_extra_1 = Some (extra_prefix @ hyphen # [49]) \<and>
   startsWith (extra_prefix @ hyphen # [49]) extra_prefix \<and>
   generateTitle name_extra_1 title_doc = Inr (extra_title_prefix @ [49]) \<and>
   extractEpisodeId name_1 = Some [49] \<and> [49] \<noteq> id_zero \<and> \<not> startsWith [49] extra_prefix \<and>
   split_str newline title_doc
     = [summary_header, [62, 32, 97]] @ [35, 35, 32, 32, 84, 49, 32] # [[35, 35, 32, 84, 50]] \<and>
   list_all (\<lambda>p. \<not> title_candidate p) [summary_header, [62, 32, 97]] \<and>
   level2_heading [35, 35, 32, 32, 84, 49, 32] \<and>
   \<not> holds_summary_word [35, 35, 32, 32, 84, 49, 32] \<and>
   generateTitle name_1 title_doc = Inr [84, 49] \<and>
   list_all (\<lambda>p. \<not> title_candidate p) (split_str newline []) \<and>
   generateTitle name_1 [] = Inr (episode_label @ [49])"
proof -
  have e: "extractEpisodeId name_extra_1 = Some (extra_prefix @ hyphen # [49])"
    by (simp add: example_ids id_extra_1_def extra_prefix_def hyphen_def)
  have z: "extractEpisodeId name_0 = Some id_zero" by (simp add: example_ids id_zero_def)
  have n: "[49] \<noteq> id_zero" "\<not> startsWith [49] extra_prefix"
    "startsWith (extra_prefix @ hyphen # [49]) extra_prefix"
    by (simp_all add: id_zero_def startsWith_def extra_prefix_def)
  from title_derivation [OF z, where body = title_doc]
  have t0: "generateTitle name_0 title_doc = Inr title_zero" by blast
  from title_derivation [OF e, where body = title_doc and m = "[49]"]
  have t1: "generateTitle name_extra_1 title_doc = Inr (extra_title_prefix @ [49])" by blast
  from title_derivation [OF name_ids(1), where body = title_doc
      and pre = "[summary_header, [62, 32, 97]]" and l = "[35, 35, 32, 32, 84, 49, 32]"
      and rest = "[[35, 35, 32, 84, 50]]"] n title_doc_split title_doc_facts(1-3)
  have "generateTitle name_1 title_doc = Inr (heading_text [35, 35, 32, 32, 84, 49, 32])"
    by blast
  then have t2: "generateTitle name_1 title_doc = Inr [84, 49]"
    by (simp only: title_doc_facts(4))
  from title_derivation [OF name_ids(1), where body = "[]"] n title_doc_facts(5)
  have t3: "generateTitle name_1 [] = Inr (episode_label @ [49])" by blast
  from e z n t0 t1 t2 t3 name_ids(1) title_doc_split title_doc_facts(1-3,5)
  show ?thesis by blast
qed

text \<open>The claim as stated fails. With a level-3 heading before the first level-2 heading
  the title is the level-3 line after two of its marks, where the first level-2 heading
  that is not the Summary header gives the main topic. With a level-2 heading that holds
  the Summary word without being the Summary header, that heading is passed over.\<close>

theorem title_not_first_level2_counterexample:
  "extractEpisodeId name_1 = Some [49] \<and>
   generateTitle name_1 section_doc = Inr deeper_title \<and>
   claimed_title [49] (split_str newline section_doc) = main_title \<and>
   deeper_title \<noteq> main_title \<and>
   generateTitle name_1 word_doc = Inr main_title \<and>
   claimed_title [49] (split_str newline word_doc) = recap_title \<and>
   main_title \<noteq> recap_title"
  by code_simp

section \<open>The summary\<close>

lemma header_is_heading: "is_summary_header l \<Longrightarrow> is_heading l"
  by (auto simp: is_summary_header_def is_heading_def startsWith_def summary_header_def hash2_def
      prefix_def)

lemma scan_line_summary:
  "inSummary (scan_line st raw) =
     (if is_summary_header (trim raw) then True
      else if inSummary st then \<not> is_heading (trim raw) else False)"
  "summaryLines (scan_line st raw) =
     summaryLines st @
       (if \<not> is_summary_header (trim raw) \<and> inSummary st \<and> \<not> is_heading (trim raw) \<and> trim raw \<noteq> []
        then [trim raw] else [])"
  by (simp_all add: scan_line_def Let_def is_summary_header_def is_heading_def)

lemma scan_capture:
  "summaryLines (foldl scan_line st raws)
     = summaryLines st @ capture (inSummary st) (map trim raws)"
proof (induction raws arbitrary: st)
  case Nil
  then show ?case by simp
next
  case (Cons raw raws)
  show ?case
    by (simp add: Cons.IH scan_line_summary)
qed

lemma capture_no_header: "list_all (\<lambda>l. \<not> is_summary_header l) ls \<Longrightarrow> capture False ls = []"
  by (induction ls) simp_all

lemma capture_pre:
  "list_all (\<lambda>l. \<not> is_summary_header l) pre \<Longrightarrow> is_summary_header h \<Longrightarrow>
     capture False (pre @ h # rest) = capture True rest"
  by (induction pre) simp_all

lemma capture_mid:
  "list_all (\<lambda>l. \<not> is_heading l) mid \<Longrightarrow>
     capture True (mid @ rest) = filter (\<lambda>l. l \<noteq> []) mid @ capture True rest"
  by (induction mid) (auto dest: header_is_heading)

lemma capture_at_heading: "rest = [] \<or> is_heading (hd rest) \<Longrightarrow> capture True rest = capture False rest"
  by (cases rest) auto

lemma capture_captured: "capture False ls = captured ls"
proof (induction ls rule: captured.induct)
  case (1 ls)
  show ?case
  proof (cases "dropWhile (\<lambda>l. \<not> is_summary_header l) ls")
    case Nil
    then have "list_all (\<lambda>l. \<not> is_summary_header l) ls" by (simp add: list_all_iff)
    then have "capture False ls = []" by (rule capture_no_header)
    moreover have "captured ls = []" by (subst captured.simps) (simp add: Nil)
    ultimately show ?thesis by simp
  next
    case (Cons h rest)
    define pre where "pre = takeWhile (\<lambda>l. \<not> is_summary_header l) ls"
    define mid where "mid = takeWhile (\<lambda>l. \<not> is_heading l) rest"
    define tail where "tail = dropWhile (\<lambda>l. \<not> is_heading l) rest"
    have ls: "ls = pre @ h # rest" unfolding pre_def Cons [symmetric] by simp
    have h: "is_summary_header h"
      using hd_dropWhile [of "\<lambda>l. \<not> is_summary_header l" ls] Cons by simp
    have pre: "list_all (\<lambda>l. \<not> is_summary_header l) pre"
      by (auto simp: pre_def list_all_iff dest: set_takeWhileD)
    have mid: "list_all (\<lambda>l. \<not> is_heading l) mid"
      by (auto simp: mid_def list_all_iff dest: set_takeWhileD)
    have rest: "rest = mid @ tail" by (simp add: mid_def tail_def)
    have t: "tail = [] \<or> is_heading (hd tail)"
      using hd_dropWhile [of "\<lambda>l. \<not> is_heading l" rest] by (auto simp: tail_def)
    have "capture False ls = capture True (mid @ tail)"
      unfolding ls rest [symmetric] using pre h by (rule capture_pre)
    also have "\<dots> = filter (\<lambda>l. l \<noteq> []) mid @ capture False tail"
      by (simp add: capture_mid [OF mid] capture_at_heading [OF t])
    also have "capture False tail = captured tail"
      unfolding tail_def using Cons by (rule "1.IH")
    also have "filter (\<lambda>l. l \<noteq> []) mid @ captured tail = captured ls"
      by (subst (2) captured.simps) (simp add: Cons mid_def tail_def)
    finally show ?thesis .
  qed
qed

lemma join_str_joined: "join_str space_str ls = joined ls"
  by (induction space_str ls rule: join_str.induct) (simp_all add: joined_def space_str_def)

lemma strip_quote_unquoted: "strip_quote s = unquoted s"
  by (cases s) (simp_all add: strip_quote_def unquoted_def gt_sign_def)

lemma parse_summary:
  "summary (parseMarkdown body fname)
     = take 500 (unquoted (joined (captured (trimmed_lines body))))"
  by (simp add: parseMarkdown_def Let_def scan_capture scan_init_def trimmed_lines_def
      capture_captured join_str_joined strip_quote_unquoted)

lemma captured_single:
  assumes "list_all (\<lambda>l. \<not> is_summary_header l) (after_section ls)"
  shows "captured ls = summary_section ls"
proof (cases "dropWhile (\<lambda>l. \<not> is_summary_header l) ls")
  case Nil
  show ?thesis by (subst captured.simps) (simp add: summary_section_def Nil)
next
  case (Cons h rest)
  have "list_all (\<lambda>l. \<not> is_summary_header l) (dropWhile (\<lambda>l. \<not> is_heading l) rest)"
    using assms by (simp add: after_section_def Cons)
  then have "capture False (dropWhile (\<lambda>l. \<not> is_heading l) rest) = []"
    by (rule capture_no_header)
  then have "captured (dropWhile (\<lambda>l. \<not> is_heading l) rest) = []"
    by (simp add: capture_captured)
  then show ?thesis by (subst captured.simps) (simp add: Cons summary_section_def)
qed


lemma captured_no_header: "list_all (\<lambda>l. \<not> is_summary_header l) ls \<Longrightarrow> captured ls = []"
  using capture_no_header [of ls] by (simp add: capture_captured)


text \<open>Claim C7, as the code has it. The lines are trimmed. A line that starts with the
  Summary header literal (whatever follows it on the line) opens the capture, each time
  one occurs; a line that starts with \<open>##\<close> closes it; the non-empty lines of all the
  sections so captured, in order, are joined with a single space, the quote marker \<open>>\<close>
  at the very start is removed with the white space after it, and the first 500 code units
  are kept, so the summary is never longer than 500. When no trimmed line starts with the
  header literal the summary is empty. When no line from the heading that closes the first
  section on starts with the header literal, the summary is made of the non-empty lines
  between the first header and the next heading alone.\<close>

theorem summary_extraction:
  "summary (parseMarkdown body fname)
     = take 500 (unquoted (joined (captured (trimmed_lines body)))) \<and>
   length (summary (parseMarkdown body fname)) \<le> 500 \<and>
   (list_all (\<lambda>l. \<not> is_summary_header l) (trimmed_lines body) \<longrightarrow>
      summary (parseMarkdown body fname) = []) \<and>
   (list_all (\<lambda>l. \<not> is_summary_header l) (after_section (trimmed_lines body)) \<longrightarrow>
      summary (parseMarkdown body fname)
        = take 500 (unquoted (joined (summary_section (trimmed_lines body)))))"
proof (intro conjI impI)
  show "summary (parseMarkdown body fname)
     = take 500 (unquoted (joined (captured (trimmed_lines body))))"
    by (rule parse_summary)
  show "length (summary (parseMarkdown body fname)) \<le> 500"
    by (simp add: parse_summary)
next
  assume "list_all (\<lambda>l. \<not> is_summary_header l) (trimmed_lines body)"
  then show "summary (parseMarkdown body fname) = []"
    by (simp add: parse_summary captured_no_header joined_def unquoted_def)
next
  assume "list_all (\<lambda>l. \<not> is_summary_header l) (after_section (trimmed_lines body))"
  then show "summary (parseMarkdown body fname)
        = take 500 (unquoted (joined (summary_section (trimmed_lines body))))"
    by (simp add: parse_summary captured_single)
qed

lemma two_doc_captured:
  "take 500 (unquoted (joined (captured (trimmed_lines two_doc))))
     = [102, 111, 111, 32, 98, 32, 98, 97, 114]"
  by code_simp

lemma long_doc_captured:
  "take 500 (unquoted (joined (captured (trimmed_lines long_doc)))) = replicate 500 97"
  by code_simp

lemma one_doc_section:
  "list_all (\<lambda>l. \<not> is_summary_header l) (after_section (trimmed_lines one_doc))"
  "take 500 (unquoted (joined (summary_section (trimmed_lines one_doc)))) = [102, 111, 111, 32, 98]"
  by code_simp+

lemma plain_doc_lines: "list_all (\<lambda>l. \<not> is_summary_header l) (trimmed_lines [84, 50])"
  by code_simp

text \<open>On the document with two Summary sections the summary is \<open>foo b bar\<close>; on the one
  with 600 letters it is the first 500 of them; the one-line document \<open>T2\<close> has no
  header and an empty summary; on the document with one section of several lines the
  summary is \<open>foo b\<close>.\<close>

theorem summary_extraction_witness:
  "summary (parseMarkdown two_doc []) = [102, 111, 111, 32, 98, 32, 98, 97, 114] \<and>
   summary (parseMarkdown long_doc []) = replicate 500 97 \<and>
   length (summary (parseMarkdown long_doc [])) \<le> 500 \<and>
   list_all (\<lambda>l. \<not> is_summary_header l) (trimmed_lines [84, 50]) \<and>
   summary (parseMarkdown [84, 50] []) = [] \<and>
   list_all (\<lambda>l. \<not> is_summary_header l) (after_section (trimmed_lines one_doc)) \<and>
   summary (parseMarkdown one_doc []) = [102, 111, 111, 32, 98]"
proof -
  note a = summary_extraction [where body = two_doc and fname = "[]"]
  note b = summary_extraction [where body = long_doc and fname = "[]"]
  note c = summary_extraction [where body = "[84, 50]" and fname = "[]"]
  note d = summary_extraction [where body = one_doc and fname = "[]"]
  have 1: "summary (parseMarkdown two_doc []) = [102, 111, 111, 32, 98, 32, 98, 97, 114]"
    using a two_doc_captured by metis
  have 2: "summary (parseMarkdown long_doc []) = replicate 500 97"
    using b long_doc_captured by metis
  have 3: "length (summary (parseMarkdown long_doc [])) \<le> 500"
    using b by blast
  have 4: "summary (parseMarkdown [84, 50] []) = []"
    using c plain_doc_lines by blast
  have 5: "summary (parseMarkdown one_doc []) = [102, 111, 111, 32, 98]"
    using d one_doc_section by metis
  from 1 2 3 4 5 plain_doc_lines one_doc_section(1) show ?thesis by blast
qed

text \<open>Claim C7 as worded does not hold. In the document with two Summary sections the
  non-empty lines between the Summary header and the next heading are \<open>> foo\<close> and \<open>b\<close>,
  which give \<open>foo b\<close>; \<open>parseMarkdown\<close> returns \<open>foo b bar\<close>, the second section
  included. In the document whose first line is the header literal followed by \<open>X\<close> no
  line is the Summary header, so the summary should be empty; \<open>parseMarkdown\<close> returns
  \<open>foo\<close>.\<close>

theorem summary_not_one_section_counterexample:
  "summary (parseMarkdown two_doc []) = [102, 111, 111, 32, 98, 32, 98, 97, 114] \<and>
   claimed_summary two_doc = [102, 111, 111, 32, 98] \<and>
   summary (parseMarkdown two_doc []) \<noteq> claimed_summary two_doc \<and>
   summary (parseMarkdown prefix_doc []) = [102, 111, 111] \<and>
   claimed_summary prefix_doc = [] \<and>
   summary (parseMarkdown prefix_doc []) \<noteq> claimed_summary prefix_doc"
  by code_simp

section \<open>Themes and keywords\<close>

text \<open>What the two scans compute. The themes are the vocabulary match of the whole text.
  The keywords are the terms found in some trimmed line that does not start with the
  Summary header; a keyword term has no white space and no line break, so this is the
  vocabulary match of the whole text whenever no line that starts with the Summary header
  holds a keyword term.\<close>

lemma includes_iff: "includes_str s v \<longleftrightarrow> (\<exists>p q. s = p @ v @ q)"
proof (induction s)
  case Nil
  then show ?case by simp
next
  case (Cons c s)
  show ?case
  proof
    assume "includes_str (c # s) v"
    then consider "prefix v (c # s)" | "includes_str s v" by auto
    then show "\<exists>p q. c # s = p @ v @ q"
    proof cases
      case 1
      then obtain q where "c # s = v @ q" by (auto simp: prefix_def)
      then have "c # s = [] @ v @ q" by simp
      then show ?thesis by blast
    next
      case 2
      with Cons.IH obtain p q where "s = p @ v @ q" by blast
      then have "c # s = (c # p) @ v @ q" by simp
      then show ?thesis by blast
    qed
  next
    assume "\<exists>p q. c # s = p @ v @ q"
    then obtain p q where pq: "c # s = p @ v @ q" by blast
    show "includes_str (c # s) v"
    proof (cases p)
      case Nil
      with pq have "prefix v (c # s)" by (simp add: prefix_def)
      then show ?thesis by simp
    next
      case (Cons a p')
      with pq have "s = p' @ v @ q" by simp
      with Cons.IH show ?thesis by auto
    qed
  qed
qed

lemma includes_rev: "includes_str (rev s) (rev v) = includes_str s v"
proof -
  have "(\<exists>p q. rev s = p @ rev v @ q) \<longleftrightarrow> (\<exists>p q. s = p @ v @ q)"
  proof
    assume "\<exists>p q. rev s = p @ rev v @ q"
    then obtain p q where "rev s = p @ rev v @ q" by blast
    then have "rev (rev s) = rev (p @ rev v @ q)" by simp
    then have "s = rev q @ v @ rev p" by simp
    then show "\<exists>p q. s = p @ v @ q" by blast
  next
    assume "\<exists>p q. s = p @ v @ q"
    then obtain p q where "s = p @ v @ q" by blast
    then have "rev s = rev q @ rev v @ rev p" by simp
    then show "\<exists>p q. rev s = p @ rev v @ q" by blast
  qed
  then show ?thesis by (simp add: includes_iff)
qed

lemma includes_dropWhile:
  assumes "v \<noteq> []" "\<And>c. c \<in> set v \<Longrightarrow> \<not> P c"
  shows "includes_str (dropWhile P s) v = includes_str s v"
proof (induction s)
  case Nil
  then show ?case by simp
next
  case (Cons c s)
  show ?case
  proof (cases "P c")
    case True
    have "\<not> prefix v (c # s)"
    proof
      assume "prefix v (c # s)"
      with assms(1) have "hd v = c" by (cases v) auto
      with assms True show False by (cases v) auto
    qed
    with True Cons.IH show ?thesis by simp
  next
    case False
    then show ?thesis by simp
  qed
qed

lemma includes_trim: "plain_term v \<Longrightarrow> includes_str (trim s) v = includes_str s v"
proof -
  assume p: "plain_term v"
  then have v: "v \<noteq> []" "\<And>c. c \<in> set v \<Longrightarrow> \<not> is_space c"
    by (simp_all add: plain_term_def list_all_iff)
  then have rv: "rev v \<noteq> []" "\<And>c. c \<in> set (rev v) \<Longrightarrow> \<not> is_space c" by simp_all
  have "includes_str (trim s) v = includes_str (dropWhile is_space (rev (dropWhile is_space s))) (rev v)"
    unfolding trim_def by (simp only: includes_rev [symmetric, of _ v] rev_rev_ident)
  also have "\<dots> = includes_str (rev (dropWhile is_space s)) (rev v)"
    using rv by (rule includes_dropWhile)
  also have "\<dots> = includes_str (dropWhile is_space s) v" by (rule includes_rev)
  also have "\<dots> = includes_str s v" using v by (rule includes_dropWhile)
  finally show ?thesis .
qed

lemma split_str_first: "split_str d s = l # ls \<Longrightarrow> l = takeWhile (\<lambda>x. x \<noteq> d) s"
  by (induction s arbitrary: l ls) (auto simp: split_str_nonempty split: if_splits list.splits)

lemma prefix_takeWhile_sep:
  "d \<notin> set v \<Longrightarrow> prefix v (takeWhile (\<lambda>x. x \<noteq> d) s) = prefix v s"
proof (induction v arbitrary: s)
  case Nil
  then show ?case by simp
next
  case (Cons a v)
  then show ?case by (cases s) auto
qed

lemma includes_split:
  assumes "v \<noteq> []" "d \<notin> set v"
  shows "includes_str s v \<longleftrightarrow> (\<exists>l \<in> set (split_str d s). includes_str l v)"
proof (induction s)
  case Nil
  then show ?case by simp
next
  case (Cons c s)
  show ?case
  proof (cases "c = d")
    case True
    have "\<not> prefix v (d # s)" using assms by (cases v) auto
    with True Cons.IH assms(1) show ?thesis by simp
  next
    case False
    obtain l ls where sp: "split_str d s = l # ls"
      using split_str_nonempty [of d s] by (cases "split_str d s") auto
    have l: "l = takeWhile (\<lambda>x. x \<noteq> d) s" using sp by (rule split_str_first)
    have "prefix v (c # l) = prefix v (c # s)"
      using prefix_takeWhile_sep [OF assms(2), of "c # s"] False by (simp add: l)
    with False sp Cons.IH show ?thesis by auto
  qed
qed


lemma fold_collect:
  "set (fold (\<lambda>v ks. if P v then set_add v ks else ks) vs ks) = set ks \<union> {v \<in> set vs. P v} \<and>
   (distinct ks \<longrightarrow> distinct (fold (\<lambda>v ks. if P v then set_add v ks else ks) vs ks))"
  by (induction vs arbitrary: ks) (auto simp: set_add_def)

lemma extractKeywords_set:
  "set (extractKeywords line ks) = set ks \<union> {v \<in> set importantTerms. includes_str line v}"
  "distinct ks \<Longrightarrow> distinct (extractKeywords line ks)"
  using fold_collect [of "includes_str line" importantTerms ks] by (simp_all add: extractKeywords_def)

lemma scan_line_keywords:
  "keywords_acc (scan_line st raw) =
     (if is_summary_header (trim raw) then keywords_acc st
      else extractKeywords (trim raw) (keywords_acc st))"
  by (simp add: scan_line_def Let_def is_summary_header_def)

lemma scan_keywords:
  "set (keywords_acc (foldl scan_line st raws))
     = set (keywords_acc st) \<union>
       {v \<in> set importantTerms.
          \<exists>l \<in> set (map trim raws). \<not> is_summary_header l \<and> includes_str l v}"
proof (induction raws arbitrary: st)
  case Nil
  then show ?case by simp
next
  case (Cons raw raws)
  have "set (keywords_acc (foldl scan_line (scan_line st raw) raws))
     = set (keywords_acc (scan_line st raw)) \<union>
       {v \<in> set importantTerms.
          \<exists>l \<in> set (map trim raws). \<not> is_summary_header l \<and> includes_str l v}"
    by (rule Cons.IH)
  then show ?case
    by (auto simp: scan_line_keywords extractKeywords_set)
qed

lemma scan_keywords_distinct:
  "distinct (keywords_acc st) \<Longrightarrow> distinct (keywords_acc (foldl scan_line st raws))"
  by (induction raws arbitrary: st) (simp_all add: scan_line_keywords extractKeywords_set)

lemma parse_keywords:
  "set (keywords_ep (parseMarkdown t f))
     = {v \<in> set importantTerms.
          \<exists>l \<in> set (trimmed_lines t). \<not> is_summary_header l \<and> includes_str l v}"
  "distinct (keywords_ep (parseMarkdown t f))"
  using scan_keywords [of scan_init "split_str newline t"]
    scan_keywords_distinct [of scan_init "split_str newline t"]
  by (simp_all add: parseMarkdown_def Let_def trimmed_lines_def scan_init_def)

lemma fold_set_add_distinct: "distinct (acc @ ys) \<Longrightarrow> fold set_add ys acc = acc @ ys"
proof (induction ys arbitrary: acc)
  case Nil
  then show ?case by simp
next
  case (Cons y ys)
  from Cons.prems have "y \<notin> set acc" "distinct ((acc @ [y]) @ ys)" by simp_all
  with Cons.IH [of "acc @ [y]"] show ?case by (simp add: set_add_def)
qed

lemma set_from_distinct_id: "distinct xs \<Longrightarrow> set_from xs = xs"
  using fold_set_add_distinct [of "[]" xs] by (simp add: set_from_def)

lemma themePatterns_distinct: "distinct themePatterns"
  by (simp add: themePatterns_def)

lemma parse_themes: "themes (parseMarkdown t f) = vocabulary_match t themePatterns"
  by (simp add: parseMarkdown_def Let_def extractThemes_def vocabulary_match_def
      set_from_distinct_id themePatterns_distinct)

lemma importantTerms_plain: "list_all (\<lambda>v. plain_term v \<and> newline \<notin> set v) importantTerms"
  by (simp add: importantTerms_def plain_term_def is_space_def newline_def)

lemma keyword_in_lines:
  assumes "v \<in> set importantTerms"
  shows "includes_str t v \<longleftrightarrow> (\<exists>l \<in> set (trimmed_lines t). includes_str l v)"
proof -
  from assms importantTerms_plain have p: "plain_term v" and n: "newline \<notin> set v"
    by (auto simp: list_all_iff)
  from p have "v \<noteq> []" by (simp add: plain_term_def)
  from includes_split [OF this n, of t] show ?thesis
    by (simp add: trimmed_lines_def includes_trim [OF p])
qed

lemma keywords_match_off_header:
  assumes "\<And>l. l \<in> set (trimmed_lines t) \<Longrightarrow> is_summary_header l \<Longrightarrow>
             vocabulary_match l importantTerms = []"
  shows "set (keywords_ep (parseMarkdown t f)) = set (vocabulary_match t importantTerms)"
proof -
  have h: "\<not> is_summary_header l"
    if "includes_str l v" "v \<in> set importantTerms" "l \<in> set (trimmed_lines t)" for l v
    using assms [of l] that by (auto simp: vocabulary_match_def filter_empty_conv)
  have "v \<in> set (keywords_ep (parseMarkdown t f)) \<longleftrightarrow> v \<in> set (vocabulary_match t importantTerms)"
    for v
  proof (cases "v \<in> set importantTerms")
    case True
    have "(\<exists>l \<in> set (trimmed_lines t). \<not> is_summary_header l \<and> includes_str l v)
        \<longleftrightarrow> (\<exists>l \<in> set (trimmed_lines t). includes_str l v)"
      using h [OF _ True] by blast
    with True keyword_in_lines [OF True, of t] show ?thesis
      by (simp add: parse_keywords vocabulary_match_def)
  next
    case False
    then show ?thesis by (simp add: parse_keywords vocabulary_match_def)
  qed
  then show ?thesis by blast
qed

text \<open>Claim C5 fails on the code. The one-line document made of the Summary header, a space
  and the keyword term for physical therapist includes that term, and the whole-text match
  against the keyword vocabulary returns it; the keyword scan returns nothing, because the
  loop \<open>continue\<close>s at a line that starts with the Summary header before it reaches
  \<open>extractKeywords\<close>. The theme scan, which works on the whole text, finds the theme term
  for physical therapy in the same document.\<close>

theorem header_line_keywords_missed:
  "includes_str header_doc term_therapist \<and> term_therapist \<in> set importantTerms \<and>
   filter (includes_str header_doc) importantTerms = [term_therapist] \<and>
   keywords_ep (parseMarkdown header_doc []) = [] \<and>
   includes_str header_doc term_therapy \<and>
   themes (parseMarkdown header_doc []) = [term_therapy]"
  by code_simp


end
